theory Spec2Isabelle
  imports Main
begin

section \<open>The snake game: data model\<close>

text \<open>
  The component \<^verbatim>\<open>SnakeGame\<close> keeps its state in React state cells.  The model below
  keeps one record field per cell, under the cell's own name, and one function per
  callback of the component; a callback returns the state after its \<^verbatim>\<open>set...\<close> calls
  have been applied.  JavaScript numbers that only ever hold small integers (grid
  coordinates, scores) are modelled as \<^typ>\<open>int\<close>.
\<close>

definition GRID_SIZE :: int where
  "GRID_SIZE = 20"

definition MAX_HIGH_SCORES :: nat where
  "MAX_HIGH_SCORES = 5"

text \<open>\<^verbatim>\<open>Position\<close> and \<^verbatim>\<open>Direction\<close> are the same structural type \<^verbatim>\<open>{x: number, y: number}\<close>.\<close>

record Position =
  x :: int
  y :: int

type_synonym Direction = Position

datatype GameState = playing | paused | gameOver | waiting

record HighScore =
  name :: string
  score :: int
  date :: string

definition INITIAL_SNAKE :: "Position list" where
  "INITIAL_SNAKE = [\<lparr>x = 10, y = 10\<rparr>]"

definition INITIAL_FOOD :: Position where
  "INITIAL_FOOD = \<lparr>x = 15, y = 15\<rparr>"

definition INITIAL_DIRECTION :: Direction where
  "INITIAL_DIRECTION = \<lparr>x = 0, y = - 1\<rparr>"

text \<open>
  The state of the component.  The first nine fields are the \<^verbatim>\<open>useState\<close> cells.  The
  last two are the parts of the browser the callbacks write to: the item
  \<^verbatim>\<open>snake-high-scores\<close> of \<^verbatim>\<open>localStorage\<close> (\<^term>\<open>None\<close> when the key is absent), and the
  callbacks handed to \<^verbatim>\<open>setTimeout\<close> that have not run yet.  Such a callback is
  \<^verbatim>\<open>() => checkForNewHighScore(score)\<close>: it closes over the \<^verbatim>\<open>score\<close> and, through
  \<^verbatim>\<open>checkForNewHighScore\<close>, over the \<^verbatim>\<open>highScores\<close> of the render that created it, so a
  pending callback is that pair of captured values.
\<close>

record SnakeGame =
  snake :: "Position list"
  food :: Position
  direction :: Direction
  gameState :: GameState
  score :: int
  highScores :: "HighScore list"
  showNameDialog :: bool
  playerName :: string
  newHighScore :: int
  storage :: "string option"
  timeouts :: "(HighScore list \<times> int) list"

section \<open>Lifecycle callbacks\<close>

definition resetGame :: "SnakeGame \<Rightarrow> SnakeGame" where
  "resetGame s = s\<lparr>snake := INITIAL_SNAKE, food := INITIAL_FOOD,
     direction := INITIAL_DIRECTION, score := 0, gameState := waiting\<rparr>"

definition startGame :: "SnakeGame \<Rightarrow> SnakeGame" where
  "startGame s = s\<lparr>gameState := playing\<rparr>"

definition pauseGame :: "SnakeGame \<Rightarrow> SnakeGame" where
  "pauseGame s = s\<lparr>gameState := (if gameState s = paused then playing else paused)\<rparr>"

section \<open>The leaderboard\<close>

subsection \<open>Strings and serialisation\<close>

text \<open>
  A JavaScript string is a sequence of 16-bit code units; a \<^typ>\<open>string\<close> here is a
  sequence of 8-bit characters, read as the code units 0 to 255.  \<^verbatim>\<open>String.prototype.trim\<close>
  strips white space and line terminators from both ends; the ones below 256 are
  TAB, LF, VT, FF, CR, SPACE and NBSP.
\<close>

definition isWhiteSpace :: "char \<Rightarrow> bool" where
  "isWhiteSpace c = (of_char c \<in> {9, 10, 11, 12, 13, 32, 160 :: nat})"

definition trim :: "string \<Rightarrow> string" where
  "trim str = rev (dropWhile isWhiteSpace (rev (dropWhile isWhiteSpace str)))"

text \<open>
  \<^verbatim>\<open>JSON.stringify\<close> on a \<^verbatim>\<open>HighScore[]\<close>: an array of objects whose properties are
  written in creation order (\<^verbatim>\<open>name\<close>, \<^verbatim>\<open>score\<close>, \<^verbatim>\<open>date\<close>), without white space.
  Strings are quoted with the escapes of \<^verbatim>\<open>QuoteJSONString\<close>; an integer is written in
  decimal (JavaScript switches to exponent notation only from \<^verbatim>\<open>1e21\<close> on).
\<close>

definition hexDigit :: "nat \<Rightarrow> char" where
  "hexDigit d = (if d < 10 then char_of (48 + d) else char_of (87 + d))"

definition quoteChar :: "char \<Rightarrow> string" where
  "quoteChar c =
     (if c = CHR 0x08 then [CHR 0x5C, CHR ''b'']
      else if c = CHR 0x09 then [CHR 0x5C, CHR ''t'']
      else if c = CHR 0x0A then [CHR 0x5C, CHR ''n'']
      else if c = CHR 0x0C then [CHR 0x5C, CHR ''f'']
      else if c = CHR 0x0D then [CHR 0x5C, CHR ''r'']
      else if c = CHR 0x22 then [CHR 0x5C, CHR 0x22]
      else if c = CHR 0x5C then [CHR 0x5C, CHR 0x5C]
      else if (of_char c :: nat) < 32
        then [CHR 0x5C, CHR ''u'', CHR ''0'', CHR ''0'',
              hexDigit (of_char c div 16), hexDigit (of_char c mod 16)]
      else [c])"

definition quoteJSONString :: "string \<Rightarrow> string" where
  "quoteJSONString str = [CHR 0x22] @ concat (map quoteChar str) @ [CHR 0x22]"

fun natToString :: "nat \<Rightarrow> string" where
  "natToString n =
     (if n < 10 then [char_of (48 + n)]
      else natToString (n div 10) @ [char_of (48 + n mod 10)])"

declare natToString.simps [simp del]

definition numberToString :: "int \<Rightarrow> string" where
  "numberToString n = (if n < 0 then CHR ''-'' # natToString (nat (- n)) else natToString (nat n))"

definition stringifyHighScore :: "HighScore \<Rightarrow> string" where
  "stringifyHighScore h =
     [CHR ''{''] @ quoteJSONString ''name'' @ '':'' @ quoteJSONString (name h) @ '','' @
     quoteJSONString ''score'' @ '':'' @ numberToString (HighScore.score h) @ '','' @
     quoteJSONString ''date'' @ '':'' @ quoteJSONString (date h) @ [CHR ''}'']"

fun joinWith :: "string \<Rightarrow> string list \<Rightarrow> string" where
  "joinWith sep [] = []"
| "joinWith sep [t] = t"
| "joinWith sep (t # u # ts) = t @ sep @ joinWith sep (u # ts)"

definition JSON_stringify :: "HighScore list \<Rightarrow> string" where
  "JSON_stringify scores = ''['' @ joinWith '','' (map stringifyHighScore scores) @ '']''"

subsection \<open>Qualifying and saving\<close>

definition saveHighScores :: "HighScore list \<Rightarrow> SnakeGame \<Rightarrow> SnakeGame" where
  "saveHighScores scores s = s\<lparr>storage := Some (JSON_stringify scores)\<rparr>"

text \<open>
  \<^verbatim>\<open>checkForNewHighScore\<close> reads the \<^verbatim>\<open>highScores\<close> of the render that created it, so the
  leaderboard it sees is an argument.  The index \<^verbatim>\<open>highScores.length - 1\<close> is only read
  when the length is at least \<^verbatim>\<open>MAX_HIGH_SCORES\<close>, hence in range.
\<close>

definition checkForNewHighScore :: "HighScore list \<Rightarrow> int \<Rightarrow> SnakeGame \<Rightarrow> bool \<times> SnakeGame" where
  "checkForNewHighScore highScores' finalScore s =
     (if finalScore = 0 then (False, s)
      else if length highScores' < MAX_HIGH_SCORES \<or>
              finalScore > HighScore.score (highScores' ! (length highScores' - 1))
        then (True, s\<lparr>newHighScore := finalScore, showNameDialog := True\<rparr>)
      else (False, s))"

text \<open>
  \<^verbatim>\<open>Array.prototype.sort\<close> is stable, and the comparator \<^verbatim>\<open>b.score - a.score\<close> orders by
  score, larger first: the result is the stable sort by the negated score.  The date is
  \<^verbatim>\<open>new Date().toLocaleDateString()\<close>, an input from the environment.
\<close>

definition savePlayerHighScore :: "string \<Rightarrow> SnakeGame \<Rightarrow> SnakeGame" where
  "savePlayerHighScore today s =
     (if trim (playerName s) = [] then s
      else
        let newScore = \<lparr>name = trim (playerName s), score = newHighScore s, date = today\<rparr>;
            updatedScores = take MAX_HIGH_SCORES
              (sort_key (\<lambda>h. - HighScore.score h) (highScores s @ [newScore]))
        in (saveHighScores updatedScores (s\<lparr>highScores := updatedScores\<rparr>))
             \<lparr>showNameDialog := False, playerName := []\<rparr>)"

section \<open>The simulation step\<close>

text \<open>
  \<^verbatim>\<open>generateFood\<close> draws cells until one is free.  Each draw evaluates
  \<^verbatim>\<open>Math.floor(Math.random() * GRID_SIZE)\<close> twice; \<open>random k\<close> is the value of the
  \<open>k\<close>-th such evaluation from now on.  The loop has no bound, so the result is an
  option: \<^term>\<open>None\<close> when the loop never ends.
\<close>

partial_function (option) generateFood :: "(nat \<Rightarrow> int) \<Rightarrow> Position list \<Rightarrow> Position option" where
  "generateFood random snakeBody =
     (let newFood = \<lparr>x = random 0, y = random 1\<rparr> in
      if list_ex (\<lambda>segment. x segment = x newFood \<and> y segment = y newFood) snakeBody
      then generateFood (\<lambda>k. random (k + 2)) snakeBody
      else Some newFood)"

text \<open>
  One call of \<^verbatim>\<open>moveSnake\<close>.  On a collision the state updater returns \<^verbatim>\<open>prevSnake\<close>, sets
  the game state and hands the high-score check to \<^verbatim>\<open>setTimeout\<close>.  With an empty snake
  \<^verbatim>\<open>newSnake[0]\<close> is \<^verbatim>\<open>undefined\<close>, the head's coordinates are \<^verbatim>\<open>NaN\<close>, every comparison
  is false, and the head is pushed and popped again: nothing changes.
\<close>

definition moveSnake :: "(nat \<Rightarrow> int) \<Rightarrow> SnakeGame \<Rightarrow> SnakeGame option" where
  "moveSnake random s =
     (if gameState s \<noteq> playing then Some s
      else case snake s of
        [] \<Rightarrow> Some s
      | first # _ \<Rightarrow>
          let head = \<lparr>x = x first + x (direction s), y = y first + y (direction s)\<rparr> in
          if x head < 0 \<or> x head \<ge> GRID_SIZE \<or> y head < 0 \<or> y head \<ge> GRID_SIZE
            then Some (s\<lparr>gameState := gameOver,
                         timeouts := timeouts s @ [(highScores s, score s)]\<rparr>)
          else if list_ex (\<lambda>segment. x segment = x head \<and> y segment = y head) (snake s)
            then Some (s\<lparr>gameState := gameOver,
                         timeouts := timeouts s @ [(highScores s, score s)]\<rparr>)
          else
            let newSnake = head # snake s in
            if x head = x (food s) \<and> y head = y (food s)
              then (case generateFood random newSnake of
                      None \<Rightarrow> None
                    | Some newFood \<Rightarrow>
                        Some (s\<lparr>snake := newSnake, score := score s + 10, food := newFood\<rparr>))
            else Some (s\<lparr>snake := butlast newSnake\<rparr>))"

text \<open>The oldest pending \<^verbatim>\<open>setTimeout\<close> callback runs (all have the same delay).\<close>

definition runTimeout :: "SnakeGame \<Rightarrow> SnakeGame" where
  "runTimeout s =
     (case timeouts s of
        [] \<Rightarrow> s
      | (highScores', finalScore) # rest \<Rightarrow>
          snd (checkForNewHighScore highScores' finalScore (s\<lparr>timeouts := rest\<rparr>)))"

section \<open>Input\<close>

definition handleKeyPress :: "string \<Rightarrow> SnakeGame \<Rightarrow> SnakeGame" where
  "handleKeyPress key s =
     (if gameState s = gameOver \<or> gameState s = waiting then s
      else if key = ''ArrowUp''
        then (if y (direction s) = 0 then s\<lparr>direction := \<lparr>x = 0, y = - 1\<rparr>\<rparr> else s)
      else if key = ''ArrowDown''
        then (if y (direction s) = 0 then s\<lparr>direction := \<lparr>x = 0, y = 1\<rparr>\<rparr> else s)
      else if key = ''ArrowLeft''
        then (if x (direction s) = 0 then s\<lparr>direction := \<lparr>x = - 1, y = 0\<rparr>\<rparr> else s)
      else if key = ''ArrowRight''
        then (if x (direction s) = 0 then s\<lparr>direction := \<lparr>x = 1, y = 0\<rparr>\<rparr> else s)
      else if key = '' '' then pauseGame s
      else s)"

text \<open>
  The on-screen pause button calls \<^verbatim>\<open>pauseGame\<close> and is disabled while the game state is
  \<^verbatim>\<open>waiting\<close> or \<^verbatim>\<open>gameOver\<close>.
\<close>

definition clickPause :: "SnakeGame \<Rightarrow> SnakeGame" where
  "clickPause s = (if gameState s = waiting \<or> gameState s = gameOver then s else pauseGame s)"

text \<open>
  The four on-screen arrow buttons update the direction with the same test as the keys,
  on the current value of the cell, and are disabled unless the game state is \<^verbatim>\<open>playing\<close>.
\<close>

definition clickUp :: "SnakeGame \<Rightarrow> SnakeGame" where
  "clickUp s =
     (if gameState s \<noteq> playing then s
      else s\<lparr>direction := (if y (direction s) = 0 then \<lparr>x = 0, y = - 1\<rparr> else direction s)\<rparr>)"

definition clickLeft :: "SnakeGame \<Rightarrow> SnakeGame" where
  "clickLeft s =
     (if gameState s \<noteq> playing then s
      else s\<lparr>direction := (if x (direction s) = 0 then \<lparr>x = - 1, y = 0\<rparr> else direction s)\<rparr>)"

definition clickRight :: "SnakeGame \<Rightarrow> SnakeGame" where
  "clickRight s =
     (if gameState s \<noteq> playing then s
      else s\<lparr>direction := (if x (direction s) = 0 then \<lparr>x = 1, y = 0\<rparr> else direction s)\<rparr>)"

definition clickDown :: "SnakeGame \<Rightarrow> SnakeGame" where
  "clickDown s =
     (if gameState s \<noteq> playing then s
      else s\<lparr>direction := (if y (direction s) = 0 then \<lparr>x = 0, y = 1\<rparr> else direction s)\<rparr>)"

text \<open>
  The direction an arrow key asks for: the object \<^verbatim>\<open>handleKeyPress\<close> passes to
  \<^verbatim>\<open>setDirection\<close> under that key.  The four of them are the cardinal directions.
\<close>

definition requestedDirection :: "string \<Rightarrow> Direction option" where
  "requestedDirection key =
     (if key = ''ArrowUp'' then Some \<lparr>x = 0, y = - 1\<rparr>
      else if key = ''ArrowDown'' then Some \<lparr>x = 0, y = 1\<rparr>
      else if key = ''ArrowLeft'' then Some \<lparr>x = - 1, y = 0\<rparr>
      else if key = ''ArrowRight'' then Some \<lparr>x = 1, y = 0\<rparr>
      else None)"

definition cardinal :: "Direction \<Rightarrow> bool" where
  "cardinal d = (d = \<lparr>x = 0, y = - 1\<rparr> \<or> d = \<lparr>x = 0, y = 1\<rparr> \<or> d = \<lparr>x = - 1, y = 0\<rparr> \<or> d = \<lparr>x = 1, y = 0\<rparr>)"

text \<open>
  The direction rule in the specification's words: a request is ignored when it is
  anti-parallel to the direction in effect for the next tick, and among several requests
  between two ticks the last valid one wins.
\<close>

definition antiParallel :: "Direction \<Rightarrow> Direction \<Rightarrow> bool" where
  "antiParallel requested heading = (x requested = - x heading \<and> y requested = - y heading)"

fun setDirections_spec :: "Direction \<Rightarrow> Direction list \<Rightarrow> Direction" where
  "setDirections_spec heading [] = heading"
| "setDirections_spec heading (requested # later) =
     setDirections_spec (if antiParallel requested heading then heading else requested) later"

section \<open>Reading the stored leaderboard\<close>

text \<open>
  \<^verbatim>\<open>JSON.parse\<close> is part of the platform, not of the component; it is modelled here by a
  parser for the JSON grammar, so that what the state initialiser does with a given stored
  text can be computed.  A string value is kept as its sequence of code units (an escape
  \<^verbatim>\<open>\uXXXX\<close> may name a unit above 255), a number as a decimal mantissa and exponent:
  \<open>JNumber m e\<close> stands for \<open>m * 10 ^ e\<close>, which is the value JavaScript reads whenever that
  value is an integer of magnitude at most \<open>2 ^ 53\<close>.  A result of \<^term>\<open>None\<close> stands for the
  exception \<^verbatim>\<open>SyntaxError\<close>.
\<close>

datatype json =
    JNull
  | JBool bool
  | JNumber int int
  | JString "nat list"
  | JArray "json list"
  | JObject "(nat list \<times> json) list"

definition isJSONWhiteSpace :: "char \<Rightarrow> bool" where
  "isJSONWhiteSpace c = (c = CHR 0x20 \<or> c = CHR 0x09 \<or> c = CHR 0x0A \<or> c = CHR 0x0D)"

definition skipWhiteSpace :: "string \<Rightarrow> string" where
  "skipWhiteSpace cs = dropWhile isJSONWhiteSpace cs"

definition isDigit :: "char \<Rightarrow> bool" where
  "isDigit c = (48 \<le> (of_char c :: nat) \<and> (of_char c :: nat) \<le> 57)"

definition digitsToNat :: "string \<Rightarrow> nat" where
  "digitsToNat ds = foldl (\<lambda>n c. 10 * n + (of_char c - 48)) 0 ds"

definition hexValue :: "char \<Rightarrow> nat option" where
  "hexValue c =
     (let n = of_char c :: nat in
      if 48 \<le> n \<and> n \<le> 57 then Some (n - 48)
      else if 97 \<le> n \<and> n \<le> 102 then Some (n - 87)
      else if 65 \<le> n \<and> n \<le> 70 then Some (n - 55)
      else None)"

definition escapeValue :: "char \<Rightarrow> nat option" where
  "escapeValue c =
     (if c = CHR 0x22 then Some 0x22
      else if c = CHR 0x5C then Some 0x5C
      else if c = CHR ''/'' then Some 0x2F
      else if c = CHR ''b'' then Some 0x08
      else if c = CHR ''f'' then Some 0x0C
      else if c = CHR ''n'' then Some 0x0A
      else if c = CHR ''r'' then Some 0x0D
      else if c = CHR ''t'' then Some 0x09
      else None)"

fun scanString :: "string \<Rightarrow> (nat list \<times> string) option" where
  "scanString [] = None"
| "scanString (c # cs) =
     (if c = CHR 0x22 then Some ([], cs)
      else if c = CHR 0x5C then
        (case cs of
           [] \<Rightarrow> None
         | e # cs' \<Rightarrow>
             if e = CHR ''u'' then
               (case cs' of
                  h1 # h2 # h3 # h4 # cs'' \<Rightarrow>
                    (case (hexValue h1, hexValue h2, hexValue h3, hexValue h4) of
                       (Some d1, Some d2, Some d3, Some d4) \<Rightarrow>
                         map_option (\<lambda>(units, rest). ((((d1 * 16 + d2) * 16 + d3) * 16 + d4) # units, rest))
                           (scanString cs'')
                     | _ \<Rightarrow> None)
                | _ \<Rightarrow> None)
             else
               (case escapeValue e of
                  None \<Rightarrow> None
                | Some u \<Rightarrow> map_option (\<lambda>(units, rest). (u # units, rest)) (scanString cs')))
      else if (of_char c :: nat) < 32 then None
      else map_option (\<lambda>(units, rest). (of_char c # units, rest)) (scanString cs))"

definition scanNumber :: "string \<Rightarrow> (json \<times> string) option" where
  "scanNumber cs =
     (let negative = (cs \<noteq> [] \<and> hd cs = CHR ''-'');
          cs1 = (if negative then tl cs else cs);
          whole = takeWhile isDigit cs1;
          cs2 = dropWhile isDigit cs1
      in if whole = [] \<or> (hd whole = CHR ''0'' \<and> tl whole \<noteq> []) then None
         else
           let hasFraction = (cs2 \<noteq> [] \<and> hd cs2 = CHR ''.'');
               fraction = (if hasFraction then takeWhile isDigit (tl cs2) else []);
               cs3 = (if hasFraction then dropWhile isDigit (tl cs2) else cs2)
           in if hasFraction \<and> fraction = [] then None
              else
                let hasExponent = (cs3 \<noteq> [] \<and> (hd cs3 = CHR ''e'' \<or> hd cs3 = CHR ''E''));
                    cs4 = (if hasExponent then tl cs3 else cs3);
                    signed = (hasExponent \<and> cs4 \<noteq> [] \<and> (hd cs4 = CHR ''+'' \<or> hd cs4 = CHR ''-''));
                    minus = (signed \<and> hd cs4 = CHR ''-'');
                    cs5 = (if signed then tl cs4 else cs4);
                    exponent = (if hasExponent then takeWhile isDigit cs5 else []);
                    cs6 = (if hasExponent then dropWhile isDigit cs5 else cs3)
                in if hasExponent \<and> exponent = [] then None
                   else
                     let mantissa = int (digitsToNat (whole @ fraction));
                         power = int (digitsToNat exponent)
                     in Some (JNumber (if negative then - mantissa else mantissa)
                               ((if minus then - power else power) - int (length fraction)),
                             cs6))"

definition scanLiteral :: "string \<Rightarrow> json \<Rightarrow> string \<Rightarrow> (json \<times> string) option" where
  "scanLiteral word v cs =
     (if take (length word) cs = word then Some (v, drop (length word) cs) else None)"

text \<open>
  The three parsers return the value and the text after it.  The comparisons of lengths
  in \<open>parseElements\<close> and \<open>parseMembers\<close> are there for the termination proof only: a
  parser that succeeds has consumed at least one character (\<open>parse_shorter\<close> below), so
  the comparisons never fail (\<open>parseElements_unguarded\<close>, \<open>parseMembers_unguarded\<close>).
\<close>

function parseValue :: "string \<Rightarrow> (json \<times> string) option"
  and parseElements :: "string \<Rightarrow> (json list \<times> string) option"
  and parseMembers :: "string \<Rightarrow> ((nat list \<times> json) list \<times> string) option" where
  "parseValue cs =
     (case skipWhiteSpace cs of
        [] \<Rightarrow> None
      | c # rest \<Rightarrow>
          if c = CHR ''{'' then
            (case skipWhiteSpace rest of
               [] \<Rightarrow> None
             | c' # rest' \<Rightarrow>
                 if c' = CHR ''}'' then Some (JObject [], rest')
                 else map_option (\<lambda>(members, after). (JObject members, after)) (parseMembers rest))
          else if c = CHR ''['' then
            (case skipWhiteSpace rest of
               [] \<Rightarrow> None
             | c' # rest' \<Rightarrow>
                 if c' = CHR '']'' then Some (JArray [], rest')
                 else map_option (\<lambda>(elements, after). (JArray elements, after)) (parseElements rest))
          else if c = CHR 0x22 then
            map_option (\<lambda>(units, after). (JString units, after)) (scanString rest)
          else if c = CHR ''t'' then scanLiteral ''true'' (JBool True) (c # rest)
          else if c = CHR ''f'' then scanLiteral ''false'' (JBool False) (c # rest)
          else if c = CHR ''n'' then scanLiteral ''null'' JNull (c # rest)
          else scanNumber (c # rest))"
| "parseElements cs =
     (case parseValue cs of
        None \<Rightarrow> None
      | Some (v, rest) \<Rightarrow>
          if length rest < length cs then
            (case skipWhiteSpace rest of
               [] \<Rightarrow> None
             | c # rest' \<Rightarrow>
                 if c = CHR '','' then
                   map_option (\<lambda>(elements, after). (v # elements, after)) (parseElements rest')
                 else if c = CHR '']'' then Some ([v], rest')
                 else None)
          else None)"
| "parseMembers cs =
     (case skipWhiteSpace cs of
        [] \<Rightarrow> None
      | c # rest \<Rightarrow>
          if c = CHR 0x22 then
            (case scanString rest of
               None \<Rightarrow> None
             | Some (key, rest1) \<Rightarrow>
                 (case skipWhiteSpace rest1 of
                    [] \<Rightarrow> None
                  | c1 # rest2 \<Rightarrow>
                      if c1 = CHR '':'' \<and> length rest2 < length cs then
                        (case parseValue rest2 of
                           None \<Rightarrow> None
                         | Some (v, rest3) \<Rightarrow>
                             if length rest3 < length rest2 then
                               (case skipWhiteSpace rest3 of
                                  [] \<Rightarrow> None
                                | c3 # rest4 \<Rightarrow>
                                    if c3 = CHR '','' then
                                      map_option (\<lambda>(members, after). ((key, v) # members, after))
                                        (parseMembers rest4)
                                    else if c3 = CHR ''}'' then Some ([(key, v)], rest4)
                                    else None)
                             else None)
                      else None))
          else None)"
  by pat_completeness auto

lemma length_skipWhiteSpace: "length (skipWhiteSpace cs) \<le> length cs"
  by (simp add: skipWhiteSpace_def length_dropWhile_le)

lemma skipWhiteSpace_Cons: "skipWhiteSpace cs = c # rest \<Longrightarrow> length rest < length cs"
  using length_skipWhiteSpace [of cs] by simp

termination parseValue
  apply (relation "measure (\<lambda>a. case a of Inl cs \<Rightarrow> 2 * length cs
        | Inr (Inl cs) \<Rightarrow> 2 * length cs + 1 | Inr (Inr cs) \<Rightarrow> 2 * length cs + 1)")
  apply (auto dest!: skipWhiteSpace_Cons)
  done

declare parseValue.simps [simp del] parseElements.simps [simp del] parseMembers.simps [simp del]

definition JSON_parse :: "string \<Rightarrow> json option" where
  "JSON_parse text =
     (case parseValue text of
        None \<Rightarrow> None
      | Some (v, rest) \<Rightarrow> if skipWhiteSpace rest = [] then Some v else None)"

text \<open>
  The component gives the parsed value the type \<^verbatim>\<open>HighScore[]\<close> without looking at it.
  The model can follow it where the value is an array of objects with the properties
  \<^verbatim>\<open>name\<close>, \<^verbatim>\<open>score\<close> and \<^verbatim>\<open>date\<close>, in this order, holding a string, an integer and a
  string whose code units are below 256: that is what \<^verbatim>\<open>saveHighScores\<close> writes.
  \<open>highScoreJSON\<close> is the value such a record is read from.
\<close>

definition asString :: "nat list \<Rightarrow> string option" where
  "asString units = (if list_all (\<lambda>u. u < 256) units then Some (map char_of units) else None)"

definition asInteger :: "int \<Rightarrow> int \<Rightarrow> int option" where
  "asInteger mantissa exponent =
     (if 0 \<le> exponent then Some (mantissa * 10 ^ nat exponent)
      else if mantissa mod 10 ^ nat (- exponent) = 0 then Some (mantissa div 10 ^ nat (- exponent))
      else None)"

fun asHighScore :: "json \<Rightarrow> HighScore option" where
  "asHighScore (JObject [(k1, JString n), (k2, JNumber mantissa exponent), (k3, JString d)]) =
     (if k1 = map of_char ''name'' \<and> k2 = map of_char ''score'' \<and> k3 = map of_char ''date''
      then (case (asString n, asInteger mantissa exponent, asString d) of
              (Some n', Some score', Some d') \<Rightarrow> Some \<lparr>name = n', score = score', date = d'\<rparr>
            | _ \<Rightarrow> None)
      else None)"
| "asHighScore _ = None"

fun asHighScores :: "json \<Rightarrow> HighScore list option" where
  "asHighScores (JArray vs) =
     (if list_all (\<lambda>v. asHighScore v \<noteq> None) vs then Some (map (\<lambda>v. the (asHighScore v)) vs)
      else None)"
| "asHighScores _ = None"

definition highScoreJSON :: "HighScore \<Rightarrow> json" where
  "highScoreJSON h =
     JObject [(map of_char ''name'', JString (map of_char (name h))),
              (map of_char ''score'', JNumber (HighScore.score h) 0),
              (map of_char ''date'', JString (map of_char (date h)))]"

section \<open>Mounting\<close>

text \<open>The state after the first render, given the leaderboard the initialiser loaded.\<close>

definition initialState :: "HighScore list \<Rightarrow> string option \<Rightarrow> SnakeGame" where
  "initialState loaded saved =
     \<lparr>snake = INITIAL_SNAKE, food = INITIAL_FOOD, direction = INITIAL_DIRECTION,
      gameState = waiting, score = 0, highScores = loaded, showNameDialog = False,
      playerName = [], newHighScore = 0, storage = saved, timeouts = []\<rparr>"

text \<open>
  The initialiser of the \<^verbatim>\<open>highScores\<close> cell: \<^verbatim>\<open>saved ? JSON.parse(saved) : []\<close>, where
  \<^verbatim>\<open>saved\<close> is \<^verbatim>\<open>null\<close> when the key is absent and the empty string is falsy.  Nothing
  catches the exception of \<^verbatim>\<open>JSON.parse\<close>, so it leaves the initialiser and the component
  does not mount.  \<open>NotHighScores\<close> marks a stored text that parses to a value the typed
  model cannot follow.
\<close>

datatype loadError = SyntaxError | NotHighScores json

definition loadHighScores :: "string option \<Rightarrow> loadError + HighScore list" where
  "loadHighScores saved =
     (case saved of
        None \<Rightarrow> Inr []
      | Some text \<Rightarrow>
          if text = [] then Inr []
          else (case JSON_parse text of
                  None \<Rightarrow> Inl SyntaxError
                | Some v \<Rightarrow>
                    (case asHighScores v of
                       None \<Rightarrow> Inl (NotHighScores v)
                     | Some scores \<Rightarrow> Inr scores)))"

definition mount :: "string option \<Rightarrow> loadError + SnakeGame" where
  "mount saved =
     (case loadHighScores saved of
        Inl e \<Rightarrow> Inl e
      | Inr loaded \<Rightarrow> Inr (initialState loaded saved))"

section \<open>Runs of the component\<close>

text \<open>
  What can happen to a mounted component: the interval timer calls \<^verbatim>\<open>moveSnake\<close> (with the
  values \<^verbatim>\<open>Math.random\<close> will return from then on), a pending \<^verbatim>\<open>setTimeout\<close> callback
  runs, a key goes down, a button is clicked, the name field is edited, the name form is
  submitted (on a given date), the dialog is opened or closed.  \<^verbatim>\<open>startGame\<close> and
  \<^verbatim>\<open>resetGame\<close> are taken in every state, whether or not their button is on screen, so
  the reachable states below include all those of the user interface.
\<close>

datatype Event =
    Tick "nat \<Rightarrow> int"
  | Timeout
  | Key string
  | Start
  | Reset
  | PauseButton
  | UpButton
  | LeftButton
  | RightButton
  | DownButton
  | NameInput string
  | NameSubmit string
  | DialogOpenChange bool

fun step :: "Event \<Rightarrow> SnakeGame \<Rightarrow> SnakeGame option" where
  "step (Tick random) s = moveSnake random s"
| "step Timeout s = Some (runTimeout s)"
| "step (Key key) s = Some (handleKeyPress key s)"
| "step Start s = Some (startGame s)"
| "step Reset s = Some (resetGame s)"
| "step PauseButton s = Some (clickPause s)"
| "step UpButton s = Some (clickUp s)"
| "step LeftButton s = Some (clickLeft s)"
| "step RightButton s = Some (clickRight s)"
| "step DownButton s = Some (clickDown s)"
| "step (NameInput str) s = Some (s\<lparr>playerName := str\<rparr>)"
| "step (NameSubmit today) s = Some (savePlayerHighScore today s)"
| "step (DialogOpenChange open') s = Some (s\<lparr>showNameDialog := open'\<rparr>)"

fun run :: "Event list \<Rightarrow> SnakeGame \<Rightarrow> SnakeGame option" where
  "run [] s = Some s"
| "run (e # es) s = (case step e s of None \<Rightarrow> None | Some s' \<Rightarrow> run es s')"

inductive reachable :: "SnakeGame \<Rightarrow> bool" where
  mounted: "reachable (initialState loaded saved)"
| event: "reachable s \<Longrightarrow> step e s = Some s' \<Longrightarrow> reachable s'"

text \<open>
  What every pending high-score check has captured, in a run that starts from a sorted
  leaderboard: a sorted leaderboard and a score that is not negative.
\<close>

definition checksWellFormed :: "SnakeGame \<Rightarrow> bool" where
  "checksWellFormed s =
     (sorted_wrt (\<lambda>a b. HighScore.score b \<le> HighScore.score a) (highScores s) \<and> 0 \<le> score s \<and>
      list_all (\<lambda>(board, finalScore).
         sorted_wrt (\<lambda>a b. HighScore.score b \<le> HighScore.score a) board \<and> 0 \<le> finalScore)
        (timeouts s))"

text \<open>
  Two runs from a fresh mount with an empty leaderboard.  In the first the player turns
  right, then down, and eats the first food at (15, 15); the food search then draws the
  cell (3, 3).  The second goes on straight down into the bottom wall.
\<close>

definition firstFoodTrace :: "Event list" where
  "firstFoodTrace =
     [Start, Key ''ArrowRight'', Tick (\<lambda>k. 3), Tick (\<lambda>k. 3), Tick (\<lambda>k. 3), Tick (\<lambda>k. 3),
      Tick (\<lambda>k. 3), Key ''ArrowDown'', Tick (\<lambda>k. 3), Tick (\<lambda>k. 3), Tick (\<lambda>k. 3),
      Tick (\<lambda>k. 3), Tick (\<lambda>k. 3)]"

definition staleCheckTrace :: "Event list" where
  "staleCheckTrace =
     firstFoodTrace @ [Tick (\<lambda>k. 3), Tick (\<lambda>k. 3), Tick (\<lambda>k. 3), Tick (\<lambda>k. 3), Tick (\<lambda>k. 3)]"

section \<open>A board that is one food short of full\<close>

text \<open>
  The cells of the grid in boustrophedon order: row 0 from left to right, row 1 from right
  to left, and so on.  In \<open>lastFoodState\<close> the snake lies on the first 399 cells of that
  path, its head on the 399th, and the food is on the last cell, straight ahead.
\<close>

definition serpentine :: "nat \<Rightarrow> Position" where
  "serpentine k =
     \<lparr>x = (if even (k div 20) then int (k mod 20) else 19 - int (k mod 20)),
      y = int (k div 20)\<rparr>"

definition lastFoodState :: SnakeGame where
  "lastFoodState = (initialState [] None)
     \<lparr>gameState := playing, snake := map serpentine (rev [0..<399]), food := serpentine 399,
      direction := \<lparr>x = - 1, y = 0\<rparr>, score := 3980\<rparr>"

text \<open>
  How play gets there.  \<open>approachTrace\<close> eats the first food, which puts the next one on
  (2, 0), and brings the two-cell snake to the start of the path, heading right.  From
  then on the snake follows the path: \<open>filling k\<close> is the state with the head on cell \<open>k\<close>
  of the path and the food on the next cell, \<open>heading k\<close> the direction of the step that
  enters cell \<open>k\<close>, and \<open>headingKey k\<close> the arrow key for it.
\<close>

definition approachTrace :: "Event list" where
  "approachTrace =
     [Start, Key ''ArrowRight''] @ replicate 5 (Tick (\<lambda>k. if even k then 2 else 0)) @
     [Key ''ArrowDown''] @ replicate 5 (Tick (\<lambda>k. if even k then 2 else 0)) @
     [Key ''ArrowLeft''] @ replicate 15 (Tick (\<lambda>k. 0)) @
     [Key ''ArrowUp''] @ replicate 15 (Tick (\<lambda>k. 0)) @
     [Key ''ArrowRight'', Tick (\<lambda>k. 0)]"

definition heading :: "nat \<Rightarrow> Direction" where
  "heading k =
     (if k mod 20 = 0 then \<lparr>x = 0, y = 1\<rparr>
      else if even (k div 20) then \<lparr>x = 1, y = 0\<rparr> else \<lparr>x = - 1, y = 0\<rparr>)"

definition headingKey :: "nat \<Rightarrow> string" where
  "headingKey k =
     (if k mod 20 = 0 then ''ArrowDown''
      else if even (k div 20) then ''ArrowRight'' else ''ArrowLeft'')"

definition filling :: "nat \<Rightarrow> SnakeGame" where
  "filling k = (initialState [] None)
     \<lparr>gameState := playing, snake := map serpentine (rev [0..<Suc k]), food := serpentine (Suc k),
      direction := heading k, score := 10 * int k\<rparr>"

section \<open>Properties\<close>

text \<open>
  Claim C10.  \<^verbatim>\<open>startGame\<close> has no guard: in every game state, also \<^verbatim>\<open>paused\<close> and
  \<^verbatim>\<open>gameOver\<close>, it sets the game state to \<^verbatim>\<open>playing\<close> and leaves the snake, the food,
  the direction, the score, the leaderboard and every other cell as they were.
\<close>

theorem startGame_unconditional:
  "gameState (startGame s) = playing \<and> snake (startGame s) = snake s \<and>
   food (startGame s) = food s \<and> direction (startGame s) = direction s \<and>
   score (startGame s) = score s \<and> highScores (startGame s) = highScores s \<and>
   startGame s = s\<lparr>gameState := playing\<rparr>"
  by (simp add: startGame_def)

subsection \<open>The food search\<close>

lemma some_segment_iff:
  "list_ex (\<lambda>segment. x segment = x h \<and> y segment = y h) body \<longleftrightarrow> (h::Position) \<in> set body"
proof -
  have "\<And>segment::Position. x segment = x h \<Longrightarrow> y segment = y h \<Longrightarrow> segment = h"
    by simp
  then show ?thesis
    unfolding list_ex_iff by blast
qed

lemma generateFood_finds:
  "\<lparr>x = random (2 * n), y = random (2 * n + 1)\<rparr> \<notin> set body \<Longrightarrow>
   \<exists>p. generateFood random body = Some p \<and> p \<notin> set body"
proof (induction n arbitrary: random)
  case 0
  then show ?case
    by (subst generateFood.simps) (simp add: some_segment_iff Let_def)
next
  case (Suc n)
  have "\<lparr>x = (\<lambda>k. random (k + 2)) (2 * n), y = (\<lambda>k. random (k + 2)) (2 * n + 1)\<rparr> \<notin> set body"
    using Suc.prems by (simp add: add.commute)
  from Suc.IH [OF this] obtain p where
    p: "generateFood (\<lambda>k. random (k + 2)) body = Some p" "p \<notin> set body"
    by blast
  show ?case
  proof (cases "\<lparr>x = random 0, y = random 1\<rparr> \<in> set body")
    case True
    then show ?thesis using p
      by (subst generateFood.simps) (simp add: some_segment_iff Let_def)
  next
    case False
    then show ?thesis
      by (subst generateFood.simps) (simp add: some_segment_iff Let_def)
  qed
qed

lemma generateFood_drawn:
  "generateFood random body = Some p \<Longrightarrow>
   p \<notin> set body \<and> (\<exists>n. p = \<lparr>x = random (2 * n), y = random (2 * n + 1)\<rparr>)"
proof (erule generateFood.raw_induct [rotated 1])
  fix loop and random :: "nat \<Rightarrow> int" and body p
  assume IH: "\<And>random body p. loop random body = Some p \<Longrightarrow>
      p \<notin> set body \<and> (\<exists>n. p = \<lparr>x = random (2 * n), y = random (2 * n + 1)\<rparr>)"
    and step: "(let newFood = \<lparr>x = random 0, y = random 1\<rparr> in
      if list_ex (\<lambda>segment. x segment = x newFood \<and> y segment = y newFood) body
      then loop (\<lambda>k. random (k + 2)) body else Some newFood) = Some p"
  show "p \<notin> set body \<and> (\<exists>n. p = \<lparr>x = random (2 * n), y = random (2 * n + 1)\<rparr>)"
  proof (cases "\<lparr>x = random 0, y = random 1\<rparr> \<in> set body")
    case True
    with step have "loop (\<lambda>k. random (k + 2)) body = Some p"
      by (simp add: some_segment_iff Let_def)
    from IH [OF this] obtain n where "p \<notin> set body"
      "p = \<lparr>x = random (2 * n + 2), y = random (2 * n + 1 + 2)\<rparr>"
      by blast
    then have "p \<notin> set body \<and> p = \<lparr>x = random (2 * Suc n), y = random (2 * Suc n + 1)\<rparr>"
      by (simp add: add.commute)
    then show ?thesis by blast
  next
    case False
    with step have "p = \<lparr>x = random (2 * 0), y = random (2 * 0 + 1)\<rparr>" "p \<notin> set body"
      by (auto simp add: some_segment_iff Let_def)
    then show ?thesis by blast
  qed
qed

lemma generateFood_never:
  "(\<And>n. \<lparr>x = random (2 * n), y = random (2 * n + 1)\<rparr> \<in> set body) \<Longrightarrow>
   generateFood random body = None"
  using generateFood_drawn [of random body] by (cases "generateFood random body") auto

lemma generateFood_first:
  "(\<And>m. m < n \<Longrightarrow> \<lparr>x = random (2 * m), y = random (2 * m + 1)\<rparr> \<in> set body) \<Longrightarrow>
   \<lparr>x = random (2 * n), y = random (2 * n + 1)\<rparr> \<notin> set body \<Longrightarrow>
   generateFood random body = Some \<lparr>x = random (2 * n), y = random (2 * n + 1)\<rparr>"
proof (induction n arbitrary: random)
  case 0
  then show ?case
    by (subst generateFood.simps) (simp add: some_segment_iff Let_def)
next
  case (Suc n)
  have first: "\<lparr>x = random 0, y = random 1\<rparr> \<in> set body"
    using Suc.prems(1) [of 0] by simp
  have "generateFood (\<lambda>k. random (k + 2)) body =
      Some \<lparr>x = (\<lambda>k. random (k + 2)) (2 * n), y = (\<lambda>k. random (k + 2)) (2 * n + 1)\<rparr>"
  proof (rule Suc.IH)
    fix m assume "m < n"
    then show "\<lparr>x = random (2 * m + 2), y = random (2 * m + 1 + 2)\<rparr> \<in> set body"
      using Suc.prems(1) [of "Suc m"] by (simp add: add.commute)
  next
    show "\<lparr>x = random (2 * n + 2), y = random (2 * n + 1 + 2)\<rparr> \<notin> set body"
      using Suc.prems(2) by (simp add: add.commute)
  qed
  with first show ?case
    by (subst generateFood.simps) (simp add: some_segment_iff Let_def add.commute)
qed

subsection \<open>The simulation step\<close>

lemma moveSnake_playing:
  assumes "gameState s = playing" and "snake s = first # rest"
    and "newHead = \<lparr>x = x first + x (direction s), y = y first + y (direction s)\<rparr>"
  shows "moveSnake random s =
     (if x newHead < 0 \<or> GRID_SIZE \<le> x newHead \<or> y newHead < 0 \<or> GRID_SIZE \<le> y newHead \<or>
         newHead \<in> set (snake s)
      then Some (s\<lparr>gameState := gameOver, timeouts := timeouts s @ [(highScores s, score s)]\<rparr>)
      else if newHead = food s
        then map_option (\<lambda>newFood. s\<lparr>snake := newHead # snake s, score := score s + 10, food := newFood\<rparr>)
               (generateFood random (newHead # snake s))
      else Some (s\<lparr>snake := butlast (newHead # snake s)\<rparr>))"
proof -
  have self: "list_ex (\<lambda>segment. x segment = x newHead \<and> y segment = y newHead) (snake s) =
      (newHead \<in> set (snake s))"
    by (rule some_segment_iff)
  have eat: "(x newHead = x (food s) \<and> y newHead = y (food s)) = (newHead = food s)"
    by auto
  have "moveSnake random s =
     (if x newHead < 0 \<or> x newHead \<ge> GRID_SIZE \<or> y newHead < 0 \<or> y newHead \<ge> GRID_SIZE
        then Some (s\<lparr>gameState := gameOver, timeouts := timeouts s @ [(highScores s, score s)]\<rparr>)
      else if list_ex (\<lambda>segment. x segment = x newHead \<and> y segment = y newHead) (snake s)
        then Some (s\<lparr>gameState := gameOver, timeouts := timeouts s @ [(highScores s, score s)]\<rparr>)
      else if x newHead = x (food s) \<and> y newHead = y (food s)
        then (case generateFood random (newHead # snake s) of
                None \<Rightarrow> None
              | Some newFood \<Rightarrow>
                  Some (s\<lparr>snake := newHead # snake s, score := score s + 10, food := newFood\<rparr>))
      else Some (s\<lparr>snake := butlast (newHead # snake s)\<rparr>))"
    unfolding moveSnake_def Let_def assms(3) using assms(1,2) by simp
  then show ?thesis
    unfolding self eat by (auto split: option.splits)
qed

text \<open>
  Claim C1.  A call of \<^verbatim>\<open>moveSnake\<close> while \<^verbatim>\<open>playing\<close>, whose new head (the head plus the
  direction) is outside \<open>[0, GRID_SIZE)\<close> on an axis or equals a segment of the snake
  before the move (the tail included), returns, sets the game state to \<^verbatim>\<open>gameOver\<close> and
  leaves the snake, the food and the score as they were: the only other change is the
  high-score check handed to \<^verbatim>\<open>setTimeout\<close>.
\<close>

theorem moveSnake_collision:
  assumes "gameState s = playing" and "snake s = first # rest"
    and "newHead = \<lparr>x = x first + x (direction s), y = y first + y (direction s)\<rparr>"
    and "x newHead < 0 \<or> GRID_SIZE \<le> x newHead \<or> y newHead < 0 \<or> GRID_SIZE \<le> y newHead \<or>
         newHead \<in> set (snake s)"
  shows "\<exists>s'. moveSnake random s = Some s' \<and> gameState s' = gameOver \<and>
           snake s' = snake s \<and> food s' = food s \<and> score s' = score s \<and>
           s' = s\<lparr>gameState := gameOver, timeouts := timeouts s @ [(highScores s, score s)]\<rparr>"
  using assms(4) unfolding moveSnake_playing [OF assms(1,2,3)] by simp

theorem moveSnake_collision_witness:
  "(\<exists>s'. moveSnake (\<lambda>k. 0)
      ((initialState [] None)\<lparr>gameState := playing, direction := \<lparr>x = 1, y = 0\<rparr>,
         snake := [\<lparr>x = 5, y = 5\<rparr>, \<lparr>x = 5, y = 6\<rparr>, \<lparr>x = 6, y = 6\<rparr>, \<lparr>x = 6, y = 5\<rparr>]\<rparr>) = Some s' \<and>
      gameState s' = gameOver \<and>
      snake s' = [\<lparr>x = 5, y = 5\<rparr>, \<lparr>x = 5, y = 6\<rparr>, \<lparr>x = 6, y = 6\<rparr>, \<lparr>x = 6, y = 5\<rparr>] \<and>
      food s' = \<lparr>x = 15, y = 15\<rparr> \<and> score s' = 0) \<and>
   (\<exists>s'. moveSnake (\<lambda>k. 0)
      ((initialState [] None)\<lparr>gameState := playing, direction := \<lparr>x = - 1, y = 0\<rparr>,
         snake := [\<lparr>x = 0, y = 7\<rparr>, \<lparr>x = 1, y = 7\<rparr>], score := 10\<rparr>) = Some s' \<and>
      gameState s' = gameOver \<and> snake s' = [\<lparr>x = 0, y = 7\<rparr>, \<lparr>x = 1, y = 7\<rparr>] \<and>
      food s' = \<lparr>x = 15, y = 15\<rparr> \<and> score s' = 10)"
  using
    moveSnake_collision [of "(initialState [] None)\<lparr>gameState := playing,
         direction := \<lparr>x = 1, y = 0\<rparr>,
         snake := [\<lparr>x = 5, y = 5\<rparr>, \<lparr>x = 5, y = 6\<rparr>, \<lparr>x = 6, y = 6\<rparr>, \<lparr>x = 6, y = 5\<rparr>]\<rparr>"
       "\<lparr>x = 5, y = 5\<rparr>" "[\<lparr>x = 5, y = 6\<rparr>, \<lparr>x = 6, y = 6\<rparr>, \<lparr>x = 6, y = 5\<rparr>]"
       "\<lparr>x = 6, y = 5\<rparr>" "\<lambda>k. 0"]
    moveSnake_collision [of "(initialState [] None)\<lparr>gameState := playing,
         direction := \<lparr>x = - 1, y = 0\<rparr>,
         snake := [\<lparr>x = 0, y = 7\<rparr>, \<lparr>x = 1, y = 7\<rparr>], score := 10\<rparr>"
       "\<lparr>x = 0, y = 7\<rparr>" "[\<lparr>x = 1, y = 7\<rparr>]" "\<lparr>x = - 1, y = 7\<rparr>" "\<lambda>k. 0"]
  by (simp add: initialState_def INITIAL_FOOD_def)

text \<open>
  Claim C2, as amended.  A call of \<^verbatim>\<open>moveSnake\<close> while \<^verbatim>\<open>playing\<close> whose new head is on
  the grid and not on the snake: when the new head is the food and the food search draws
  a free cell (its \<open>n\<close>-th draw is the first one off the grown snake), the call returns,
  the score grows by exactly 10, the snake is the old one with the new head in front
  (one segment longer, the tail kept), and the food is that drawn cell, which is on no
  segment of the grown snake, the new head included; when the new head is not the food,
  the tail is removed, and the length, the score and the food are unchanged.
\<close>

theorem moveSnake_advance:
  assumes "gameState s = playing" and "snake s = first # rest"
    and "newHead = \<lparr>x = x first + x (direction s), y = y first + y (direction s)\<rparr>"
    and "0 \<le> x newHead" and "x newHead < GRID_SIZE" and "0 \<le> y newHead" and "y newHead < GRID_SIZE"
    and "newHead \<notin> set (snake s)"
  shows "(newHead = food s \<and>
          (\<forall>m<n. \<lparr>x = random (2 * m), y = random (2 * m + 1)\<rparr> \<in> set (newHead # snake s)) \<and>
          \<lparr>x = random (2 * n), y = random (2 * n + 1)\<rparr> \<notin> set (newHead # snake s) \<longrightarrow>
            (\<exists>s'. moveSnake random s = Some s' \<and> gameState s' = playing \<and>
               score s' = score s + 10 \<and> snake s' = newHead # snake s \<and>
               length (snake s') = length (snake s) + 1 \<and>
               food s' = \<lparr>x = random (2 * n), y = random (2 * n + 1)\<rparr> \<and>
               food s' \<notin> set (snake s'))) \<and>
         (newHead \<noteq> food s \<longrightarrow>
            (\<exists>s'. moveSnake random s = Some s' \<and> gameState s' = playing \<and>
               score s' = score s \<and> food s' = food s \<and>
               snake s' = butlast (newHead # snake s) \<and>
               length (snake s') = length (snake s)))"
proof (intro conjI impI)
  assume eat: "newHead = food s \<and>
          (\<forall>m<n. \<lparr>x = random (2 * m), y = random (2 * m + 1)\<rparr> \<in> set (newHead # snake s)) \<and>
          \<lparr>x = random (2 * n), y = random (2 * n + 1)\<rparr> \<notin> set (newHead # snake s)"
  then have "generateFood random (newHead # snake s) =
      Some \<lparr>x = random (2 * n), y = random (2 * n + 1)\<rparr>"
    by (intro generateFood_first) blast+
  with eat assms(1,4-8) show "\<exists>s'. moveSnake random s = Some s' \<and> gameState s' = playing \<and>
               score s' = score s + 10 \<and> snake s' = newHead # snake s \<and>
               length (snake s') = length (snake s) + 1 \<and>
               food s' = \<lparr>x = random (2 * n), y = random (2 * n + 1)\<rparr> \<and>
               food s' \<notin> set (snake s')"
    unfolding moveSnake_playing [OF assms(1,2,3)] by auto
next
  assume "newHead \<noteq> food s"
  with assms(1,2,4-8) show "\<exists>s'. moveSnake random s = Some s' \<and> gameState s' = playing \<and>
               score s' = score s \<and> food s' = food s \<and>
               snake s' = butlast (newHead # snake s) \<and>
               length (snake s') = length (snake s)"
    unfolding moveSnake_playing [OF assms(1,2,3)] by simp
qed

theorem moveSnake_advance_witness:
  "(\<exists>s'. moveSnake (\<lambda>k. if k < 2 then 15 else 3)
      ((initialState [] None)\<lparr>gameState := playing, direction := \<lparr>x = 0, y = 1\<rparr>,
         snake := [\<lparr>x = 15, y = 14\<rparr>]\<rparr>) = Some s' \<and>
      gameState s' = playing \<and> score s' = 10 \<and>
      snake s' = [\<lparr>x = 15, y = 15\<rparr>, \<lparr>x = 15, y = 14\<rparr>] \<and> food s' = \<lparr>x = 3, y = 3\<rparr>) \<and>
   (\<exists>s'. moveSnake (\<lambda>k. 0)
      ((initialState [] None)\<lparr>gameState := playing,
         snake := [\<lparr>x = 10, y = 10\<rparr>, \<lparr>x = 10, y = 11\<rparr>]\<rparr>) = Some s' \<and>
      gameState s' = playing \<and> score s' = 0 \<and>
      snake s' = [\<lparr>x = 10, y = 9\<rparr>, \<lparr>x = 10, y = 10\<rparr>] \<and> food s' = \<lparr>x = 15, y = 15\<rparr>)"
proof -
  let ?eat = "(initialState [] None)\<lparr>gameState := playing, direction := \<lparr>x = 0, y = 1\<rparr>,
         snake := [\<lparr>x = 15, y = 14\<rparr>]\<rparr>"
  let ?move = "(initialState [] None)\<lparr>gameState := playing,
         snake := [\<lparr>x = 10, y = 10\<rparr>, \<lparr>x = 10, y = 11\<rparr>]\<rparr>"
  let ?random = "\<lambda>k::nat. if k < 2 then 15 else (3::int)"
  have draws: "(\<forall>m<1. \<lparr>x = ?random (2 * m), y = ?random (2 * m + 1)\<rparr> \<in>
        set (\<lparr>x = 15, y = 15\<rparr> # snake ?eat)) \<and>
      \<lparr>x = ?random (2 * 1), y = ?random (2 * 1 + 1)\<rparr> \<notin> set (\<lparr>x = 15, y = 15\<rparr> # snake ?eat)"
    by simp
  have eat: "gameState ?eat = playing" "snake ?eat = [\<lparr>x = 15, y = 14\<rparr>]"
    "\<lparr>x = 15, y = 15\<rparr> = \<lparr>x = x \<lparr>x = 15, y = 14\<rparr> + x (direction ?eat),
       y = y \<lparr>x = 15, y = 14\<rparr> + y (direction ?eat)\<rparr>"
    "0 \<le> x \<lparr>x = 15, y = 15 :: int\<rparr>" "x \<lparr>x = 15, y = 15 :: int\<rparr> < GRID_SIZE"
    "0 \<le> y \<lparr>x = 15 :: int, y = 15\<rparr>" "y \<lparr>x = 15 :: int, y = 15\<rparr> < GRID_SIZE"
    "\<lparr>x = 15, y = 15\<rparr> \<notin> set (snake ?eat)"
    by (simp_all add: GRID_SIZE_def)
  have onFood: "\<lparr>x = 15, y = 15\<rparr> = food ?eat"
    by (simp add: initialState_def INITIAL_FOOD_def)
  have "\<exists>s'. moveSnake ?random ?eat = Some s' \<and> gameState s' = playing \<and>
      score s' = score ?eat + 10 \<and> snake s' = \<lparr>x = 15, y = 15\<rparr> # snake ?eat \<and>
      length (snake s') = length (snake ?eat) + 1 \<and>
      food s' = \<lparr>x = ?random (2 * 1), y = ?random (2 * 1 + 1)\<rparr> \<and> food s' \<notin> set (snake s')"
    using draws onFood moveSnake_advance [OF eat, of 1 ?random] by blast
  moreover have "\<exists>s'. moveSnake (\<lambda>k. 0) ?move = Some s' \<and> gameState s' = playing \<and>
      score s' = score ?move \<and> food s' = food ?move \<and>
      snake s' = butlast (\<lparr>x = 10, y = 9\<rparr> # snake ?move) \<and>
      length (snake s') = length (snake ?move)"
    using moveSnake_advance [of ?move "\<lparr>x = 10, y = 10\<rparr>" "[\<lparr>x = 10, y = 11\<rparr>]"
        "\<lparr>x = 10, y = 9\<rparr>" 0 "\<lambda>k. 0"]
    by (simp add: initialState_def INITIAL_FOOD_def INITIAL_DIRECTION_def GRID_SIZE_def)
  ultimately show ?thesis
    by (auto simp: initialState_def INITIAL_FOOD_def)
qed

subsection \<open>Qualifying\<close>

lemma last_is_lowest:
  assumes "sorted_wrt (\<lambda>a b. HighScore.score b \<le> HighScore.score a) board" and "board \<noteq> []"
  shows "HighScore.score (board ! (length board - 1)) = Min (HighScore.score ` set board)"
proof -
  have last: "board ! (length board - 1) \<in> set board"
    using assms(2) by simp
  have "HighScore.score (board ! (length board - 1)) \<le> HighScore.score h" if "h \<in> set board" for h
  proof -
    from that obtain i where i: "i < length board" "board ! i = h"
      by (auto simp: in_set_conv_nth)
    show ?thesis
    proof (cases "i = length board - 1")
      case True
      with i show ?thesis by simp
    next
      case False
      with i have "i < length board - 1" by simp
      with assms(1) i show ?thesis
        by (auto simp: sorted_wrt_iff_nth_less)
    qed
  qed
  with last show ?thesis
    by (intro Min_eqI [symmetric]) auto
qed

text \<open>
  Claim C3.  On a leaderboard sorted by score, larger first, and for a candidate score
  that is not negative, \<^verbatim>\<open>checkForNewHighScore\<close> returns true exactly when the candidate is
  greater than 0 and either fewer than 5 records are stored or the candidate is greater
  than the lowest stored score.  So 0 never qualifies, not even on an empty leaderboard,
  and at capacity a candidate equal to the lowest score does not qualify.  When it
  returns true it has recorded the candidate and opened the name dialog; otherwise the
  state is unchanged.
\<close>

theorem checkForNewHighScore_qualifies:
  assumes "sorted_wrt (\<lambda>a b. HighScore.score b \<le> HighScore.score a) board" and "0 \<le> candidate"
  shows "fst (checkForNewHighScore board candidate s) =
           (0 < candidate \<and> (length board < 5 \<or> Min (HighScore.score ` set board) < candidate)) \<and>
         snd (checkForNewHighScore board candidate s) =
           (if fst (checkForNewHighScore board candidate s)
            then s\<lparr>newHighScore := candidate, showNameDialog := True\<rparr> else s)"
proof (cases "length board < 5")
  case True
  with assms(2) show ?thesis
    by (auto simp: checkForNewHighScore_def MAX_HIGH_SCORES_def)
next
  case False
  then have "board \<noteq> []" by auto
  from last_is_lowest [OF assms(1) this] False assms(2) show ?thesis
    by (auto simp: checkForNewHighScore_def MAX_HIGH_SCORES_def)
qed

theorem checkForNewHighScore_qualifies_witness:
  "\<not> fst (checkForNewHighScore [] 0 (initialState [] None)) \<and>
   fst (checkForNewHighScore [] 5 (initialState [] None)) \<and>
   \<not> fst (checkForNewHighScore
      [\<lparr>name = ''A'', score = 300, date = ''1/1/2025''\<rparr>, \<lparr>name = ''B'', score = 250, date = ''1/2/2025''\<rparr>,
       \<lparr>name = ''C'', score = 200, date = ''1/3/2025''\<rparr>, \<lparr>name = ''D'', score = 150, date = ''1/4/2025''\<rparr>,
       \<lparr>name = ''E'', score = 100, date = ''1/5/2025''\<rparr>] 100 (initialState [] None)) \<and>
   fst (checkForNewHighScore
      [\<lparr>name = ''A'', score = 300, date = ''1/1/2025''\<rparr>, \<lparr>name = ''B'', score = 250, date = ''1/2/2025''\<rparr>,
       \<lparr>name = ''C'', score = 200, date = ''1/3/2025''\<rparr>, \<lparr>name = ''D'', score = 150, date = ''1/4/2025''\<rparr>,
       \<lparr>name = ''E'', score = 100, date = ''1/5/2025''\<rparr>] 101 (initialState [] None))"
proof -
  let ?board = "[\<lparr>name = ''A'', score = 300, date = ''1/1/2025''\<rparr>, \<lparr>name = ''B'', score = 250, date = ''1/2/2025''\<rparr>,
       \<lparr>name = ''C'', score = 200, date = ''1/3/2025''\<rparr>, \<lparr>name = ''D'', score = 150, date = ''1/4/2025''\<rparr>,
       \<lparr>name = ''E'', score = 100, date = ''1/5/2025''\<rparr>]"
  have sorted: "sorted_wrt (\<lambda>a b. HighScore.score b \<le> HighScore.score a) ?board"
    "sorted_wrt (\<lambda>a b. HighScore.score b \<le> HighScore.score a) []"
    by simp_all
  show ?thesis
    using checkForNewHighScore_qualifies [OF sorted(2), of 0 "initialState [] None"]
      checkForNewHighScore_qualifies [OF sorted(2), of 5 "initialState [] None"]
      checkForNewHighScore_qualifies [OF sorted(1), of 100 "initialState [] None"]
      checkForNewHighScore_qualifies [OF sorted(1), of 101 "initialState [] None"]
    by simp
qed

subsection \<open>Input\<close>

text \<open>
  Claim C5.  The pause command reaches \<^verbatim>\<open>pauseGame\<close> through the space key of
  \<^verbatim>\<open>handleKeyPress\<close> or through the on-screen button.  Either way it turns \<^verbatim>\<open>playing\<close> into
  \<^verbatim>\<open>paused\<close> and \<^verbatim>\<open>paused\<close> into \<^verbatim>\<open>playing\<close>, and in the states \<^verbatim>\<open>waiting\<close> and
  \<^verbatim>\<open>gameOver\<close> it changes nothing.
\<close>

theorem togglePause_guarded:
  "handleKeyPress '' '' s =
     (case gameState s of
        playing \<Rightarrow> s\<lparr>gameState := paused\<rparr>
      | paused \<Rightarrow> s\<lparr>gameState := playing\<rparr>
      | gameOver \<Rightarrow> s
      | waiting \<Rightarrow> s) \<and>
   clickPause s = handleKeyPress '' '' s"
  by (cases "gameState s") (simp_all add: handleKeyPress_def clickPause_def pauseGame_def)

lemma requestedDirection_cases:
  assumes "requestedDirection key = Some requested"
  obtains "key = ''ArrowUp''" "requested = \<lparr>x = 0, y = - 1\<rparr>"
    | "key = ''ArrowDown''" "requested = \<lparr>x = 0, y = 1\<rparr>"
    | "key = ''ArrowLeft''" "requested = \<lparr>x = - 1, y = 0\<rparr>"
    | "key = ''ArrowRight''" "requested = \<lparr>x = 1, y = 0\<rparr>"
  using assms unfolding requestedDirection_def by (metis option.distinct(1) option.inject)

lemma handleKeyPress_reversal:
  assumes "requestedDirection key = Some requested" and "antiParallel requested (direction s)"
  shows "handleKeyPress key s = s"
  using assms(1)
proof (cases rule: requestedDirection_cases)
  case 1
  with assms(2) show ?thesis by (simp add: antiParallel_def handleKeyPress_def)
next
  case 2
  with assms(2) show ?thesis by (simp add: antiParallel_def handleKeyPress_def)
next
  case 3
  with assms(2) show ?thesis by (simp add: antiParallel_def handleKeyPress_def)
next
  case 4
  with assms(2) show ?thesis by (simp add: antiParallel_def handleKeyPress_def)
qed

lemma handleKeyPress_arrow:
  assumes "gameState s = playing \<or> gameState s = paused" and "cardinal (direction s)"
    and "requestedDirection key = Some requested"
  shows "handleKeyPress key s =
    s\<lparr>direction := (if antiParallel requested (direction s) then direction s else requested)\<rparr>"
proof -
  have state: "\<not> (gameState s = gameOver \<or> gameState s = waiting)"
    using assms(1) by auto
  from assms(2) consider "direction s = \<lparr>x = 0, y = - 1\<rparr>" | "direction s = \<lparr>x = 0, y = 1\<rparr>"
    | "direction s = \<lparr>x = - 1, y = 0\<rparr>" | "direction s = \<lparr>x = 1, y = 0\<rparr>"
    unfolding cardinal_def by blast
  then show ?thesis
  proof cases
    case 1
    from assms(3) show ?thesis
      by (cases rule: requestedDirection_cases) (simp_all add: 1 state antiParallel_def handleKeyPress_def)
  next
    case 2
    from assms(3) show ?thesis
      by (cases rule: requestedDirection_cases) (simp_all add: 2 state antiParallel_def handleKeyPress_def)
  next
    case 3
    from assms(3) show ?thesis
      by (cases rule: requestedDirection_cases) (simp_all add: 3 state antiParallel_def handleKeyPress_def)
  next
    case 4
    from assms(3) show ?thesis
      by (cases rule: requestedDirection_cases) (simp_all add: 4 state antiParallel_def handleKeyPress_def)
  qed
qed

lemma cardinal_requested: "requestedDirection key = Some requested \<Longrightarrow> cardinal requested"
  by (erule requestedDirection_cases) (simp_all add: cardinal_def)

lemma fold_handleKeyPress:
  assumes "gameState s = playing \<or> gameState s = paused" and "cardinal (direction s)"
    and "\<forall>key \<in> set keys. requestedDirection key \<noteq> None"
  shows "fold handleKeyPress keys s =
    s\<lparr>direction := setDirections_spec (direction s) (map (\<lambda>key. the (requestedDirection key)) keys)\<rparr>"
  using assms
proof (induction keys arbitrary: s)
  case Nil
  then show ?case by simp
next
  case (Cons key keys)
  then obtain requested where r: "requestedDirection key = Some requested"
    by auto
  define d where "d = (if antiParallel requested (direction s) then direction s else requested)"
  have step: "handleKeyPress key s = s\<lparr>direction := d\<rparr>"
    unfolding d_def using handleKeyPress_arrow [OF Cons.prems(1,2) r] .
  have "cardinal d"
    using Cons.prems(2) cardinal_requested [OF r] by (simp add: d_def)
  with Cons.prems have "fold handleKeyPress keys (s\<lparr>direction := d\<rparr>) =
      (s\<lparr>direction := d\<rparr>)\<lparr>direction := setDirections_spec (direction (s\<lparr>direction := d\<rparr>))
         (map (\<lambda>key. the (requestedDirection key)) keys)\<rparr>"
    by (intro Cons.IH) simp_all
  with step r show ?case
    by (simp add: d_def)
qed

text \<open>
  Claim C7.  The cell \<^verbatim>\<open>direction\<close> is the direction \<^verbatim>\<open>moveSnake\<close> adds to the head at the next
  tick.  A key whose direction is anti-parallel to it changes nothing.  While the game is
  \<^verbatim>\<open>playing\<close> or \<^verbatim>\<open>paused\<close> and the direction is one of the four cardinal ones, a sequence
  of arrow keys leaves every cell but \<^verbatim>\<open>direction\<close> unchanged, and \<^verbatim>\<open>direction\<close> is what the
  specification's rule gives: the last request that was not anti-parallel to the
  direction in effect when it was made.
\<close>

theorem handleKeyPress_direction:
  "(requestedDirection key = Some requested \<and> antiParallel requested (direction s) \<longrightarrow>
      handleKeyPress key s = s) \<and>
   ((gameState s = playing \<or> gameState s = paused) \<and> cardinal (direction s) \<and>
    (\<forall>key \<in> set keys. requestedDirection key \<noteq> None) \<longrightarrow>
      fold handleKeyPress keys s =
        s\<lparr>direction := setDirections_spec (direction s) (map (\<lambda>key. the (requestedDirection key)) keys)\<rparr>)"
  using handleKeyPress_reversal [of key requested s] fold_handleKeyPress [of s keys] by blast

theorem handleKeyPress_direction_witness:
  "handleKeyPress ''ArrowLeft''
     ((initialState [] None)\<lparr>gameState := playing, direction := \<lparr>x = 1, y = 0\<rparr>\<rparr>) =
     (initialState [] None)\<lparr>gameState := playing, direction := \<lparr>x = 1, y = 0\<rparr>\<rparr> \<and>
   fold handleKeyPress [''ArrowLeft'', ''ArrowDown'', ''ArrowUp'']
     ((initialState [] None)\<lparr>gameState := playing, direction := \<lparr>x = 1, y = 0\<rparr>\<rparr>) =
     (initialState [] None)\<lparr>gameState := playing, direction := \<lparr>x = 1, y = 0\<rparr>\<rparr>
       \<lparr>direction := \<lparr>x = 0, y = 1\<rparr>\<rparr>"
proof -
  let ?s = "(initialState [] None)\<lparr>gameState := playing, direction := \<lparr>x = 1, y = 0\<rparr>\<rparr>"
  let ?keys = "[''ArrowLeft'', ''ArrowDown'', ''ArrowUp'']"
  have req: "requestedDirection ''ArrowLeft'' = Some \<lparr>x = - 1, y = 0\<rparr>"
    "requestedDirection ''ArrowDown'' = Some \<lparr>x = 0, y = 1\<rparr>"
    "requestedDirection ''ArrowUp'' = Some \<lparr>x = 0, y = - 1\<rparr>"
    by (simp_all add: requestedDirection_def)
  have pre: "antiParallel \<lparr>x = - 1, y = 0\<rparr> (direction ?s)"
    "gameState ?s = playing \<or> gameState ?s = paused" "cardinal (direction ?s)"
    "\<forall>key \<in> set ?keys. requestedDirection key \<noteq> None"
    by (simp_all add: req antiParallel_def cardinal_def)
  have last: "setDirections_spec (direction ?s) (map (\<lambda>key. the (requestedDirection key)) ?keys) =
      \<lparr>x = 0, y = 1\<rparr>"
    by (simp add: req antiParallel_def)
  note both = handleKeyPress_direction [of "''ArrowLeft''" "\<lparr>x = - 1, y = 0\<rparr>" ?s ?keys]
  have "handleKeyPress ''ArrowLeft'' ?s = ?s"
    using both req(1) pre(1) by blast
  moreover have "fold handleKeyPress ?keys ?s =
      ?s\<lparr>direction := setDirections_spec (direction ?s) (map (\<lambda>key. the (requestedDirection key)) ?keys)\<rparr>"
    using both pre(2,3,4) by blast
  ultimately show ?thesis
    unfolding last by (rule conjI)
qed

subsection \<open>Reachable states\<close>

lemma reachable_run: "reachable s \<Longrightarrow> run es s = Some s' \<Longrightarrow> reachable s'"
proof (induction es arbitrary: s)
  case Nil
  then show ?case by simp
next
  case (Cons e es)
  then show ?case
    by (auto split: option.splits intro: reachable.event)
qed

lemma moveSnake_distinct:
  assumes "moveSnake random s = Some s'" and "distinct (snake s)" and "snake s \<noteq> []"
  shows "distinct (snake s') \<and> snake s' \<noteq> []"
proof (cases "gameState s = playing")
  case False
  with assms show ?thesis
    by (simp add: moveSnake_def)
next
  case True
  from assms(3) obtain first rest where snake: "snake s = first # rest"
    by (cases "snake s") auto
  define newHead where "newHead = \<lparr>x = x first + x (direction s), y = y first + y (direction s)\<rparr>"
  have "distinct (butlast (newHead # snake s))" if "newHead \<notin> set (snake s)"
    using that assms(2) by (intro distinct_butlast) simp
  moreover have "butlast (newHead # snake s) \<noteq> []"
    by (simp add: snake)
  ultimately show ?thesis
    using assms(1,2,3) unfolding moveSnake_playing [OF True snake newHead_def]
    by (auto split: if_splits)
qed

lemma snake_unchanged:
  "snake (runTimeout s) = snake s"
  "snake (handleKeyPress key s) = snake s"
  "snake (startGame s) = snake s"
  "snake (clickPause s) = snake s"
  "snake (clickUp s) = snake s"
  "snake (clickLeft s) = snake s"
  "snake (clickRight s) = snake s"
  "snake (clickDown s) = snake s"
  "snake (savePlayerHighScore today s) = snake s"
  by (simp_all add: runTimeout_def checkForNewHighScore_def handleKeyPress_def pauseGame_def
      startGame_def clickPause_def clickUp_def clickLeft_def clickRight_def clickDown_def
      savePlayerHighScore_def saveHighScores_def Let_def split: list.split prod.split)

lemma step_distinct:
  assumes "step e s = Some s'" and "distinct (snake s)" and "snake s \<noteq> []"
  shows "distinct (snake s') \<and> snake s' \<noteq> []"
proof (cases e)
  case (Tick random)
  with assms show ?thesis
    using moveSnake_distinct by simp
next
  case Reset
  with assms show ?thesis
    by (auto simp: resetGame_def INITIAL_SNAKE_def)
qed (use assms in \<open>auto simp: snake_unchanged\<close>)

lemma reachable_distinct: "reachable s \<Longrightarrow> distinct (snake s) \<and> snake s \<noteq> []"
proof (induction rule: reachable.induct)
  case (mounted loaded saved)
  show ?case by (simp add: initialState_def INITIAL_SNAKE_def)
next
  case (event s e s')
  then show ?case
    using step_distinct by blast
qed

text \<open>
  Claim C9.  In every reachable state whose game state is \<^verbatim>\<open>playing\<close> or \<^verbatim>\<open>paused\<close>, no two
  segments of the snake are on the same cell, and the snake has at least one segment.
\<close>

theorem reachable_snake_distinct:
  assumes "reachable s" and "gameState s = playing \<or> gameState s = paused"
  shows "distinct (snake s) \<and> 1 \<le> length (snake s)"
  using reachable_distinct [OF assms(1)] by (cases "snake s") auto

lemmas run_simps = firstFoodTrace_def initialState_def INITIAL_SNAKE_def INITIAL_FOOD_def
  INITIAL_DIRECTION_def GRID_SIZE_def MAX_HIGH_SCORES_def startGame_def resetGame_def
  handleKeyPress_def moveSnake_def generateFood.simps runTimeout_def checkForNewHighScore_def Let_def

lemma run_firstFoodTrace:
  "run firstFoodTrace (initialState [] None) =
     Some ((initialState [] None)\<lparr>gameState := playing, direction := \<lparr>x = 0, y = 1\<rparr>,
       snake := [\<lparr>x = 15, y = 15\<rparr>, \<lparr>x = 15, y = 14\<rparr>], food := \<lparr>x = 3, y = 3\<rparr>,
       score := 10\<rparr>)"
  by (simp add: run_simps)

theorem reachable_snake_distinct_witness:
  "reachable ((initialState [] None)\<lparr>gameState := playing, direction := \<lparr>x = 0, y = 1\<rparr>,
       snake := [\<lparr>x = 15, y = 15\<rparr>, \<lparr>x = 15, y = 14\<rparr>], food := \<lparr>x = 3, y = 3\<rparr>,
       score := 10\<rparr>) \<and>
   distinct [\<lparr>x = 15, y = 15\<rparr>, \<lparr>x = 15 :: int, y = 14 :: int\<rparr>] \<and>
   1 \<le> length [\<lparr>x = 15, y = 15\<rparr>, \<lparr>x = 15 :: int, y = 14 :: int\<rparr>]"
proof -
  let ?s = "(initialState [] None)\<lparr>gameState := playing, direction := \<lparr>x = 0, y = 1\<rparr>,
       snake := [\<lparr>x = 15, y = 15\<rparr>, \<lparr>x = 15, y = 14\<rparr>], food := \<lparr>x = 3, y = 3\<rparr>,
       score := 10\<rparr>"
  have r: "reachable ?s"
    using reachable_run [OF reachable.mounted run_firstFoodTrace] .
  have "gameState ?s = playing \<or> gameState ?s = paused"
    by simp
  from reachable_snake_distinct [OF r this] r show ?thesis
    by simp
qed

subsection \<open>What a pending check has captured\<close>

text \<open>
  The hypotheses of \<open>checkForNewHighScore_qualifies\<close> hold wherever the component calls
  \<^verbatim>\<open>checkForNewHighScore\<close>: in a run from a mount with a sorted leaderboard, every pending
  check holds a sorted leaderboard and a score that is not negative.
\<close>

lemma moveSnake_effect:
  assumes "moveSnake random s = Some s'"
  shows "highScores s' = highScores s \<and> (score s' = score s \<or> score s' = score s + 10) \<and>
         (timeouts s' = timeouts s \<or> timeouts s' = timeouts s @ [(highScores s, score s)])"
proof (cases "gameState s = playing")
  case False
  with assms show ?thesis
    by (simp add: moveSnake_def)
next
  case True
  show ?thesis
  proof (cases "snake s")
    case Nil
    with assms True show ?thesis
      by (simp add: moveSnake_def)
  next
    case (Cons first rest)
    from assms show ?thesis
      unfolding moveSnake_playing [OF True Cons refl]
      by (auto split: if_splits)
  qed
qed

lemma sorted_savePlayerHighScore:
  "sorted_wrt (\<lambda>a b. HighScore.score b \<le> HighScore.score a) (highScores s) \<Longrightarrow>
   sorted_wrt (\<lambda>a b. HighScore.score b \<le> HighScore.score a) (highScores (savePlayerHighScore today s))"
proof -
  let ?all = "highScores s @ [\<lparr>name = trim (playerName s), score = newHighScore s, date = today\<rparr>]"
  have "sorted (map (\<lambda>h. - HighScore.score h) (sort_key (\<lambda>h. - HighScore.score h) ?all))"
    by (rule sorted_sort_key)
  then have "sorted_wrt (\<lambda>a b. HighScore.score b \<le> HighScore.score a)
      (take MAX_HIGH_SCORES (sort_key (\<lambda>h. - HighScore.score h) ?all))"
    by (intro sorted_wrt_take) (simp add: sorted_map)
  then show "sorted_wrt (\<lambda>a b. HighScore.score b \<le> HighScore.score a) (highScores s) \<Longrightarrow> ?thesis"
    by (simp add: savePlayerHighScore_def saveHighScores_def Let_def)
qed

lemma step_checksWellFormed:
  assumes "step e s = Some s'" and "checksWellFormed s"
  shows "checksWellFormed s'"
proof (cases e)
  case (Tick random)
  with assms(1) have "moveSnake random s = Some s'"
    by simp
  from moveSnake_effect [OF this] assms(2) show ?thesis
    by (auto simp: checksWellFormed_def)
next
  case Timeout
  with assms show ?thesis
    by (auto simp: checksWellFormed_def runTimeout_def checkForNewHighScore_def
        split: list.splits if_splits)
next
  case (Key key)
  with assms show ?thesis
    by (auto simp: checksWellFormed_def handleKeyPress_def pauseGame_def)
next
  case (NameSubmit today)
  have "score (savePlayerHighScore today s) = score s"
    "timeouts (savePlayerHighScore today s) = timeouts s"
    by (simp_all add: savePlayerHighScore_def saveHighScores_def Let_def)
  with NameSubmit assms sorted_savePlayerHighScore [of s today] show ?thesis
    by (auto simp: checksWellFormed_def)
qed (use assms in \<open>auto simp: checksWellFormed_def startGame_def resetGame_def clickPause_def
      pauseGame_def clickUp_def clickDown_def clickLeft_def clickRight_def\<close>)

lemma run_checksWellFormed:
  "run es s = Some s' \<Longrightarrow> checksWellFormed s \<Longrightarrow> checksWellFormed s'"
proof (induction es arbitrary: s)
  case Nil
  then show ?case by simp
next
  case (Cons e es)
  then show ?case
    by (auto split: option.splits dest: step_checksWellFormed)
qed

lemma pending_check_as_specified:
  assumes "sorted_wrt (\<lambda>a b. HighScore.score b \<le> HighScore.score a) loaded"
    and "run es (initialState loaded saved) = Some s"
    and "timeouts s = (board, finalScore) # pending"
  shows "sorted_wrt (\<lambda>a b. HighScore.score b \<le> HighScore.score a) board \<and> 0 \<le> finalScore"
proof -
  have "checksWellFormed (initialState loaded saved)"
    using assms(1) by (simp add: checksWellFormed_def initialState_def)
  from run_checksWellFormed [OF assms(2) this] assms(3) show ?thesis
    by (simp add: checksWellFormed_def)
qed

subsection \<open>The delayed high-score check\<close>

text \<open>
  Claim C6, as amended.  \<^verbatim>\<open>resetGame\<close> does not cancel a pending high-score check.  When
  the check runs after the reset it still decides on the score and the leaderboard
  captured at the collision: if that score qualifies, it is stored in \<^verbatim>\<open>newHighScore\<close> and
  the name dialog opens over the reset game; otherwise nothing but the pending list
  changes.
\<close>

theorem resetGame_keeps_pending_check:
  "timeouts (resetGame s) = timeouts s \<and>
   (timeouts s = (board, finalScore) # pending \<longrightarrow>
      runTimeout (resetGame s) =
        (if fst (checkForNewHighScore board finalScore s)
         then (resetGame s)\<lparr>timeouts := pending, newHighScore := finalScore, showNameDialog := True\<rparr>
         else (resetGame s)\<lparr>timeouts := pending\<rparr>))"
  by (simp add: resetGame_def runTimeout_def checkForNewHighScore_def)

theorem resetGame_keeps_pending_check_witness:
  "timeouts (resetGame ((initialState [] None)\<lparr>gameState := gameOver,
       direction := \<lparr>x = 0, y = 1\<rparr>, snake := [\<lparr>x = 15, y = 19\<rparr>, \<lparr>x = 15, y = 18\<rparr>],
       food := \<lparr>x = 3, y = 3\<rparr>, score := 10, timeouts := [([], 10)]\<rparr>)) = [([], 10)] \<and>
   runTimeout (resetGame ((initialState [] None)\<lparr>gameState := gameOver,
       direction := \<lparr>x = 0, y = 1\<rparr>, snake := [\<lparr>x = 15, y = 19\<rparr>, \<lparr>x = 15, y = 18\<rparr>],
       food := \<lparr>x = 3, y = 3\<rparr>, score := 10, timeouts := [([], 10)]\<rparr>)) =
     (initialState [] None)\<lparr>newHighScore := 10, showNameDialog := True\<rparr>"
proof -
  let ?s = "(initialState [] None)\<lparr>gameState := gameOver,
       direction := \<lparr>x = 0, y = 1\<rparr>, snake := [\<lparr>x = 15, y = 19\<rparr>, \<lparr>x = 15, y = 18\<rparr>],
       food := \<lparr>x = 3, y = 3\<rparr>, score := 10, timeouts := [([], 10)]\<rparr>"
  have pending: "timeouts ?s = ([], 10) # []"
    by simp
  have qualifies: "fst (checkForNewHighScore [] 10 ?s)"
    by (simp add: checkForNewHighScore_def MAX_HIGH_SCORES_def)
  have "timeouts (resetGame ?s) = timeouts ?s"
    using resetGame_keeps_pending_check [of ?s] by blast
  moreover have "runTimeout (resetGame ?s) =
      (resetGame ?s)\<lparr>timeouts := [], newHighScore := 10, showNameDialog := True\<rparr>"
    using resetGame_keeps_pending_check [of ?s "[]" 10 "[]"] pending qualifies by presburger
  ultimately show ?thesis
    by (simp add: resetGame_def initialState_def)
qed

text \<open>
  Claim C6 as stated fails on the second run: the player scores 10 and hits the wall, then
  resets before the check has run.  The check is still pending after the reset, and when
  it runs the name dialog opens for the score 10 while the game is \<^verbatim>\<open>waiting\<close> with score
  0, or \<^verbatim>\<open>playing\<close> if the player has started the next game in between.
\<close>

theorem reset_stale_check_counterexample:
  "run staleCheckTrace (initialState [] None) =
     Some ((initialState [] None)\<lparr>gameState := gameOver, direction := \<lparr>x = 0, y = 1\<rparr>,
       snake := [\<lparr>x = 15, y = 19\<rparr>, \<lparr>x = 15, y = 18\<rparr>], food := \<lparr>x = 3, y = 3\<rparr>,
       score := 10, timeouts := [([], 10)]\<rparr>) \<and>
   run (staleCheckTrace @ [Reset]) (initialState [] None) =
     Some ((initialState [] None)\<lparr>timeouts := [([], 10)]\<rparr>) \<and>
   run (staleCheckTrace @ [Reset, Timeout]) (initialState [] None) =
     Some ((initialState [] None)\<lparr>newHighScore := 10, showNameDialog := True\<rparr>) \<and>
   run (staleCheckTrace @ [Reset, Start, Timeout]) (initialState [] None) =
     Some ((initialState [] None)\<lparr>gameState := playing, newHighScore := 10, showNameDialog := True\<rparr>)"
  by (simp add: staleCheckTrace_def run_simps)

subsection \<open>The last food\<close>

lemma serpentine_inj: "serpentine k = serpentine k' \<Longrightarrow> k = k'"
proof -
  assume eq: "serpentine k = serpentine k'"
  then have d: "k div 20 = k' div 20"
    by (simp add: serpentine_def)
  with eq have "k mod 20 = k' mod 20"
    by (auto simp: serpentine_def split: if_splits)
  with d show "k = k'"
    by (metis div_mult_mod_eq)
qed

lemma serpentine_onto:
  assumes "0 \<le> a" "a < 20" "0 \<le> b" "b < 20"
  shows "\<lparr>x = a, y = b\<rparr> \<in> serpentine ` {0..<400}"
proof -
  define c where "c = (if even (nat b) then nat a else 19 - nat a)"
  define k where "k = 20 * nat b + c"
  have c: "c < 20" using assms by (auto simp: c_def)
  then have kd: "k div 20 = nat b" and km: "k mod 20 = c"
    by (simp_all add: k_def)
  have "k < 400" using assms c by (simp add: k_def)
  moreover have "serpentine k = \<lparr>x = a, y = b\<rparr>"
    using assms by (auto simp: serpentine_def kd km c_def)
  ultimately show ?thesis
    by (metis atLeastLessThan_iff image_eqI zero_le)
qed

lemma snake_lastFoodState:
  "snake lastFoodState = serpentine 398 # map serpentine (rev [0..<398])"
proof -
  have "[0..<399] = [0..<398] @ [398::nat]"
    using upt_Suc_append [of 0 398] by simp
  then show ?thesis
    by (simp add: lastFoodState_def)
qed

lemma set_grown_lastFoodState:
  "set (serpentine 399 # snake lastFoodState) = serpentine ` {0..<400}"
proof -
  have "{0..<400::nat} = insert 399 {0..<399}"
    by auto
  then show ?thesis
    by (simp add: lastFoodState_def)
qed

lemma run_approachTrace:
  "run approachTrace (initialState [] None) =
     Some ((initialState [] None)\<lparr>gameState := playing, direction := \<lparr>x = 1, y = 0\<rparr>,
       snake := [\<lparr>x = 1, y = 0\<rparr>, \<lparr>x = 0, y = 0\<rparr>], food := \<lparr>x = 2, y = 0\<rparr>, score := 10\<rparr>)"
  by (simp add: approachTrace_def initialState_def INITIAL_SNAKE_def INITIAL_FOOD_def
      INITIAL_DIRECTION_def GRID_SIZE_def startGame_def handleKeyPress_def moveSnake_def
      generateFood.simps Let_def numeral_eq_Suc)

lemma filling_1:
  "filling (Suc 0) = (initialState [] None)\<lparr>gameState := playing, direction := \<lparr>x = 1, y = 0\<rparr>,
       snake := [\<lparr>x = 1, y = 0\<rparr>, \<lparr>x = 0, y = 0\<rparr>], food := \<lparr>x = 2, y = 0\<rparr>, score := 10\<rparr>"
  by (simp add: filling_def serpentine_def heading_def initialState_def upt_rec)

lemma Suc_row_end:
  "Suc k mod 20 = 0 \<Longrightarrow> k mod 20 = 19 \<and> Suc k div 20 = Suc (k div 20)"
  by (simp add: mod_Suc div_Suc split: if_splits)

lemma Suc_row_inside:
  "Suc k mod 20 \<noteq> 0 \<Longrightarrow> Suc k mod 20 = Suc (k mod 20) \<and> Suc k div 20 = k div 20"
  by (simp add: mod_Suc div_Suc split: if_splits)

lemma serpentine_next:
  "serpentine (Suc k) =
     \<lparr>x = x (serpentine k) + x (heading (Suc k)), y = y (serpentine k) + y (heading (Suc k))\<rparr>"
proof (cases "Suc k mod 20 = 0")
  case True
  with Suc_row_end [OF True] show ?thesis
    by (simp add: serpentine_def heading_def)
next
  case False
  with Suc_row_inside [OF False] show ?thesis
    by (simp add: serpentine_def heading_def)
qed

lemma serpentine_on_grid:
  "k < 400 \<Longrightarrow> 0 \<le> x (serpentine k) \<and> x (serpentine k) < GRID_SIZE \<and>
     0 \<le> y (serpentine k) \<and> y (serpentine k) < GRID_SIZE"
proof -
  assume "k < 400"
  then have "k div 20 < 20"
    by simp
  moreover have "k mod 20 < 20"
    by simp
  ultimately show ?thesis
    by (auto simp: serpentine_def GRID_SIZE_def)
qed

lemma turn_filling:
  "handleKeyPress (headingKey (Suc k)) (filling k) = (filling k)\<lparr>direction := heading (Suc k)\<rparr>"
proof (cases "Suc k mod 20 = 0")
  case True
  with Suc_row_end [OF True] have "heading k = \<lparr>x = (if even (k div 20) then 1 else - 1), y = 0\<rparr>"
    "headingKey (Suc k) = ''ArrowDown''" "heading (Suc k) = \<lparr>x = 0, y = 1\<rparr>"
    by (simp_all add: heading_def headingKey_def)
  then show ?thesis
    by (simp add: handleKeyPress_def filling_def)
next
  case False
  note inside = Suc_row_inside [OF False]
  show ?thesis
  proof (cases "k mod 20 = 0")
    case True
    with False have "heading k = \<lparr>x = 0, y = 1\<rparr>"
      "headingKey (Suc k) = (if even (Suc k div 20) then ''ArrowRight'' else ''ArrowLeft'')"
      "heading (Suc k) = \<lparr>x = (if even (Suc k div 20) then 1 else - 1), y = 0\<rparr>"
      by (simp_all add: heading_def headingKey_def)
    then show ?thesis
      by (simp add: handleKeyPress_def filling_def)
  next
    case other: False
    with False inside have same: "heading (Suc k) = heading k" and "x (heading k) \<noteq> 0"
      and "headingKey (Suc k) = ''ArrowRight'' \<or> headingKey (Suc k) = ''ArrowLeft''"
      by (simp_all add: heading_def headingKey_def)
    then have "handleKeyPress (headingKey (Suc k)) (filling k) = filling k"
      by (auto simp: handleKeyPress_def filling_def)
    moreover have "(filling k)\<lparr>direction := heading (Suc k)\<rparr> = filling k"
      by (simp add: same filling_def)
    ultimately show ?thesis
      by simp
  qed
qed

lemma eat_filling:
  assumes "k < 398"
  shows "moveSnake (\<lambda>i. if even i then x (serpentine (Suc (Suc k))) else y (serpentine (Suc (Suc k))))
      ((filling k)\<lparr>direction := heading (Suc k)\<rparr>) = Some (filling (Suc k))"
proof -
  let ?s = "(filling k)\<lparr>direction := heading (Suc k)\<rparr>"
  let ?random = "\<lambda>i::nat. if even i then x (serpentine (Suc (Suc k))) else y (serpentine (Suc (Suc k)))"
  have playing: "gameState ?s = playing"
    by (simp add: filling_def)
  have body: "snake ?s = serpentine k # map serpentine (rev [0..<k])"
    by (simp add: filling_def)
  have head: "serpentine (Suc k) =
      \<lparr>x = x (serpentine k) + x (direction ?s), y = y (serpentine k) + y (direction ?s)\<rparr>"
    using serpentine_next [of k] by simp
  have inj: "inj serpentine"
    by (rule injI) (rule serpentine_inj)
  have off: "serpentine (Suc k) \<notin> set (snake ?s)"
    by (simp add: filling_def inj_image_mem_iff [OF inj] inj_eq [OF inj])
  have draw: "\<lparr>x = ?random (2 * 0), y = ?random (2 * 0 + 1)\<rparr> = serpentine (Suc (Suc k))"
    by simp
  have "serpentine (Suc (Suc k)) \<notin> set (serpentine (Suc k) # snake ?s)"
    by (simp add: filling_def inj_image_mem_iff [OF inj] inj_eq [OF inj])
  then have "generateFood ?random (serpentine (Suc k) # snake ?s) = Some (serpentine (Suc (Suc k)))"
    using generateFood_first [of 0 ?random "serpentine (Suc k) # snake ?s"] by (simp only: draw) simp
  moreover have "food ?s = serpentine (Suc k)"
    by (simp add: filling_def)
  moreover have "Suc k < 400"
    using assms by simp
  ultimately show ?thesis
    using off serpentine_on_grid [of "Suc k"]
    unfolding moveSnake_playing [OF playing body head]
    by (simp add: filling_def)
qed

lemma run_filling:
  assumes "k < 398"
  shows "run [Key (headingKey (Suc k)),
      Tick (\<lambda>i. if even i then x (serpentine (Suc (Suc k))) else y (serpentine (Suc (Suc k))))]
      (filling k) = Some (filling (Suc k))"
  using eat_filling [OF assms] by (simp add: turn_filling)

lemma reachable_filling: "k < 398 \<Longrightarrow> reachable (filling (Suc k))"
proof (induction k)
  case 0
  show ?case
    using reachable_run [OF reachable.mounted run_approachTrace] by (simp add: filling_1)
next
  case (Suc k)
  then have "reachable (filling (Suc k))" "k < 398"
    by simp_all
  then show ?case
    using reachable_run [OF _ run_filling [of "Suc k"]] Suc.prems by blast
qed

lemma lastFoodState_filling: "lastFoodState = filling 398"
proof -
  have "Suc 398 = 399"
    by simp
  moreover have "heading 398 = \<lparr>x = - 1, y = 0\<rparr>"
    by (simp add: heading_def)
  moreover have "10 * int 398 = 3980"
    by simp
  ultimately show ?thesis
    unfolding lastFoodState_def filling_def by (simp only:)
qed

lemma reachable_lastFoodState: "reachable lastFoodState"
proof -
  have "reachable (filling (Suc 397))"
    by (rule reachable_filling) simp
  moreover have "Suc 397 = 398"
    by simp
  ultimately show ?thesis
    by (simp only: lastFoodState_filling)
qed

text \<open>
  Claim C2 as stated fails in \<open>lastFoodState\<close>, a state that play can reach: the game is
  \<^verbatim>\<open>playing\<close>, the new head is the food's cell, on the grid and off the snake, so the tick
  does not end the game; but the grown snake covers all 400 cells, and whatever
  \<^verbatim>\<open>Math.random\<close> returns, the food search never ends: the tick returns no state, and the
  food is not relocated.
\<close>

theorem moveSnake_last_food_counterexample:
  "reachable lastFoodState \<and> gameState lastFoodState = playing \<and>
   hd (snake lastFoodState) = \<lparr>x = 1, y = 19\<rparr> \<and> direction lastFoodState = \<lparr>x = - 1, y = 0\<rparr> \<and>
   food lastFoodState = \<lparr>x = 0, y = 19\<rparr> \<and> food lastFoodState \<notin> set (snake lastFoodState) \<and>
   distinct (snake lastFoodState) \<and> length (snake lastFoodState) = 399 \<and>
   \<not> (\<exists>random s'. (\<forall>k. 0 \<le> random k \<and> random k < GRID_SIZE) \<and>
          moveSnake random lastFoodState = Some s')"
proof -
  have hd: "serpentine 398 = \<lparr>x = 1, y = 19\<rparr>" and fd: "serpentine 399 = \<lparr>x = 0, y = 19\<rparr>"
    by (simp_all add: serpentine_def)
  have free: "food lastFoodState \<notin> set (snake lastFoodState)"
    by (auto simp: lastFoodState_def dest: serpentine_inj)
  have dist: "distinct (snake lastFoodState)"
    by (auto simp: lastFoodState_def distinct_map inj_on_def dest: serpentine_inj)
  have none: "moveSnake random lastFoodState = None"
    if range: "\<forall>k. 0 \<le> random k \<and> random k < GRID_SIZE" for random
  proof -
    have "generateFood random (serpentine 399 # snake lastFoodState) = None"
    proof (rule generateFood_never)
      fix n
      show "\<lparr>x = random (2 * n), y = random (2 * n + 1)\<rparr> \<in> set (serpentine 399 # snake lastFoodState)"
        unfolding set_grown_lastFoodState
        using range by (intro serpentine_onto) (simp_all add: GRID_SIZE_def)
    qed
    moreover have "food lastFoodState = serpentine 399"
      by (simp add: lastFoodState_def)
    moreover have "gameState lastFoodState = playing" "direction lastFoodState = \<lparr>x = - 1, y = 0\<rparr>"
      by (simp_all add: lastFoodState_def)
    moreover note moveSnake_playing [OF _ snake_lastFoodState refl, of random]
    ultimately show ?thesis
      using free by (simp add: hd fd GRID_SIZE_def)
  qed
  show ?thesis
    using free dist none reachable_lastFoodState
    by (auto simp: snake_lastFoodState hd) (simp_all add: lastFoodState_def fd)
qed

subsection \<open>The parser consumes its input\<close>

lemma scanString_shorter: "scanString cs = Some (units, rest) \<Longrightarrow> length rest < length cs"
proof (induction cs arbitrary: units rest rule: scanString.induct)
  case 1
  then show ?case by simp
next
  case (2 c cs)
  show ?case
  proof (cases "c = CHR 0x22")
    case True
    with "2.prems" show ?thesis by simp
  next
    case quote: False
    show ?thesis
    proof (cases "c = CHR 0x5C")
      case False
      with quote "2.prems" obtain units' where "scanString cs = Some (units', rest)"
        by (auto split: if_splits)
      with "2.IH"(3) [OF quote False] "2.prems" quote False show ?thesis
        by (fastforce split: if_splits)
    next
      case True
      with quote "2.prems" obtain e cs' where cs: "cs = e # cs'"
        by (cases cs) auto
      show ?thesis
      proof (cases "e = CHR ''u''")
        case False
        with True quote cs "2.prems" obtain u units' where
          "escapeValue e = Some u" "scanString cs' = Some (units', rest)"
          by (auto split: option.splits)
        with "2.IH"(2) [OF quote True cs False] cs show ?thesis
          by fastforce
      next
        case u: True
        with True quote cs "2.prems" obtain h1 h2 h3 h4 cs'' where cs': "cs' = h1 # h2 # h3 # h4 # cs''"
          by (auto split: list.splits)
        with u True quote cs "2.prems" obtain d1 d2 d3 d4 units' where
          "hexValue h1 = Some d1" "hexValue h2 = Some d2" "hexValue h3 = Some d3" "hexValue h4 = Some d4"
          "scanString cs'' = Some (units', rest)"
          by (auto split: option.splits)
        with "2.IH"(1) [OF quote True cs u cs'] cs cs' show ?thesis
          by fastforce
      qed
    qed
  qed
qed

lemma dropWhile_shorter: "takeWhile P cs \<noteq> [] \<Longrightarrow> length (dropWhile P cs) < length cs"
  by (cases cs) (auto simp: le_imp_less_Suc length_dropWhile_le split: if_splits)

lemma scanNumber_shorter:
  assumes "scanNumber cs = Some (v, rest)"
  shows "length rest < length cs"
proof -
  define cs1 where "cs1 = (if cs \<noteq> [] \<and> hd cs = CHR ''-'' then tl cs else cs)"
  define cs2 where "cs2 = dropWhile isDigit cs1"
  define hasFraction where "hasFraction = (cs2 \<noteq> [] \<and> hd cs2 = CHR ''.'')"
  define cs3 where "cs3 = (if hasFraction then dropWhile isDigit (tl cs2) else cs2)"
  define hasExponent where "hasExponent = (cs3 \<noteq> [] \<and> (hd cs3 = CHR ''e'' \<or> hd cs3 = CHR ''E''))"
  define cs4 where "cs4 = (if hasExponent then tl cs3 else cs3)"
  define signed where "signed = (hasExponent \<and> cs4 \<noteq> [] \<and> (hd cs4 = CHR ''+'' \<or> hd cs4 = CHR ''-''))"
  define cs5 where "cs5 = (if signed then tl cs4 else cs4)"
  define cs6 where "cs6 = (if hasExponent then dropWhile isDigit cs5 else cs3)"
  have "\<exists>w f e. scanNumber cs =
      (if takeWhile isDigit cs1 = [] \<or> w then None
       else if f then None else if e then None
       else Some (JNumber (if cs \<noteq> [] \<and> hd cs = CHR ''-''
              then - int (digitsToNat (takeWhile isDigit cs1 @
                     (if hasFraction then takeWhile isDigit (tl cs2) else [])))
              else int (digitsToNat (takeWhile isDigit cs1 @
                     (if hasFraction then takeWhile isDigit (tl cs2) else []))))
            ((if signed \<and> hd cs4 = CHR ''-''
              then - int (digitsToNat (if hasExponent then takeWhile isDigit cs5 else []))
              else int (digitsToNat (if hasExponent then takeWhile isDigit cs5 else []))) -
             int (length (if hasFraction then takeWhile isDigit (tl cs2) else []))), cs6))"
    unfolding scanNumber_def Let_def cs1_def cs2_def hasFraction_def cs3_def hasExponent_def
      cs4_def signed_def cs5_def cs6_def
    by blast
  with assms have whole: "takeWhile isDigit cs1 \<noteq> []" and rest: "rest = cs6"
    by (auto split: if_splits)
  have "length cs1 \<le> length cs"
    by (simp add: cs1_def)
  moreover have "length cs2 < length cs1"
    unfolding cs2_def using whole by (rule dropWhile_shorter)
  moreover have "length cs3 \<le> length cs2"
    using length_dropWhile_le [of isDigit "tl cs2"] by (auto simp: cs3_def)
  moreover have "length cs4 \<le> length cs3"
    by (simp add: cs4_def)
  moreover have "length cs5 \<le> length cs4"
    by (simp add: cs5_def)
  moreover have "length cs6 \<le> length cs3"
    using length_dropWhile_le [of isDigit cs5] calculation(4,5) by (auto simp: cs6_def)
  ultimately show ?thesis
    using rest by simp
qed

lemma scanLiteral_shorter:
  "scanLiteral word v cs = Some (v', rest) \<Longrightarrow> word \<noteq> [] \<Longrightarrow> length rest < length cs"
  by (cases cs) (auto simp: scanLiteral_def split: if_splits)

lemma parse_shorter:
  "(\<forall>v rest. parseValue cs = Some (v, rest) \<longrightarrow> length rest < length cs)"
  "(\<forall>vs rest. parseElements cs' = Some (vs, rest) \<longrightarrow> length rest < length cs')"
  "(\<forall>ms rest. parseMembers cs'' = Some (ms, rest) \<longrightarrow> length rest < length cs'')"
proof (induction cs and cs' and cs'' rule: parseValue_parseElements_parseMembers.induct)
  case (1 cs)
  show ?case
  proof (intro allI impI)
    fix v rest
    assume parsed: "parseValue cs = Some (v, rest)"
    then obtain c after where first: "skipWhiteSpace cs = c # after"
      by (subst (asm) parseValue.simps) (auto split: list.splits)
    then have le: "length after < length cs"
      by (rule skipWhiteSpace_Cons)
    consider (obj) "c = CHR ''{''" | (arr) "c = CHR ''[''" | (str) "c = CHR 0x22"
      | (lit) "c = CHR ''t'' \<or> c = CHR ''f'' \<or> c = CHR ''n''"
      | (num) "c \<noteq> CHR ''{''" "c \<noteq> CHR ''[''" "c \<noteq> CHR 0x22" "c \<noteq> CHR ''t''"
          "c \<noteq> CHR ''f''" "c \<noteq> CHR ''n''"
      by blast
    then show "length rest < length cs"
    proof cases
      case obj
      from parsed first obj obtain c' after' where second: "skipWhiteSpace after = c' # after'"
        by (subst (asm) parseValue.simps) (auto split: list.splits)
      show ?thesis
      proof (cases "c' = CHR ''}''")
        case True
        with parsed first obj second have "rest = after'"
          by (subst (asm) parseValue.simps) auto
        with skipWhiteSpace_Cons [OF second] le show ?thesis by simp
      next
        case False
        with parsed first obj second obtain ms where "parseMembers after = Some (ms, rest)"
          by (subst (asm) parseValue.simps) auto
        with "1.IH"(1) [OF first obj second False] le show ?thesis
          by fastforce
      qed
    next
      case arr
      from parsed first arr obtain c' after' where second: "skipWhiteSpace after = c' # after'"
        by (subst (asm) parseValue.simps) (auto split: list.splits)
      show ?thesis
      proof (cases "c' = CHR '']''")
        case True
        with parsed first arr second have "rest = after'"
          by (subst (asm) parseValue.simps) auto
        with skipWhiteSpace_Cons [OF second] le show ?thesis by simp
      next
        case False
        have "c \<noteq> CHR ''{''" using arr by simp
        moreover from parsed first arr second False obtain vs where "parseElements after = Some (vs, rest)"
          by (subst (asm) parseValue.simps) auto
        ultimately show ?thesis
          using "1.IH"(2) [OF first _ arr second False] le by fastforce
      qed
    next
      case str
      with parsed first obtain units where "scanString after = Some (units, rest)"
        by (subst (asm) parseValue.simps) auto
      with scanString_shorter le show ?thesis
        by fastforce
    next
      case lit
      with parsed first have "\<exists>word v'. word \<noteq> [] \<and> scanLiteral word v' (c # after) = Some (v, rest)"
        by (subst (asm) parseValue.simps) (auto split: if_splits)
      then obtain word v' where "word \<noteq> []" "scanLiteral word v' (c # after) = Some (v, rest)"
        by blast
      from scanLiteral_shorter [OF this(2,1)] first length_skipWhiteSpace [of cs] show ?thesis
        by simp
    next
      case num
      with parsed first have "scanNumber (c # after) = Some (v, rest)"
        by (subst (asm) parseValue.simps) auto
      from scanNumber_shorter [OF this] first length_skipWhiteSpace [of cs] show ?thesis
        by simp
    qed
  qed
next
  case (2 cs)
  show ?case
  proof (intro allI impI)
    fix vs rest
    assume parsed: "parseElements cs = Some (vs, rest)"
    then obtain v after where v: "parseValue cs = Some (v, after)" and le: "length after < length cs"
      by (subst (asm) parseElements.simps) (auto split: option.splits if_splits)
    with parsed obtain c after' where next': "skipWhiteSpace after = c # after'"
      by (subst (asm) parseElements.simps) (auto split: list.splits)
    show "length rest < length cs"
    proof (cases "c = CHR '',''")
      case True
      with parsed v le next' obtain vs' where "parseElements after' = Some (vs', rest)"
        by (subst (asm) parseElements.simps) auto
      with "2.IH"(2) [OF v refl le next' True] skipWhiteSpace_Cons [OF next'] le show ?thesis
        by fastforce
    next
      case False
      with parsed v le next' have "rest = after'"
        by (subst (asm) parseElements.simps) (auto split: if_splits)
      with skipWhiteSpace_Cons [OF next'] le show ?thesis
        by simp
    qed
  qed
next
  case (3 cs)
  show ?case
  proof (intro allI impI)
    fix ms rest
    assume parsed: "parseMembers cs = Some (ms, rest)"
    then obtain c r0 key r1 c1 r2 v r3 c3 r4 where
      steps: "skipWhiteSpace cs = c # r0" "c = CHR 0x22" "scanString r0 = Some (key, r1)"
        "skipWhiteSpace r1 = c1 # r2" "c1 = CHR '':'' \<and> length r2 < length cs"
        "parseValue r2 = Some (v, r3)" "length r3 < length r2" "skipWhiteSpace r3 = c3 # r4"
      by (subst (asm) parseMembers.simps) (auto split: list.splits option.splits if_splits)
    have le: "length r4 < length cs"
      using skipWhiteSpace_Cons [OF steps(8)] steps(5,7) by simp
    show "length rest < length cs"
    proof (cases "c3 = CHR '',''")
      case True
      with parsed steps obtain ms' where "parseMembers r4 = Some (ms', rest)"
        by (subst (asm) parseMembers.simps) auto
      with "3.IH"(2) [OF steps(1,2,3) refl steps(4,5,6) refl steps(7,8) True] le show ?thesis
        by fastforce
    next
      case False
      with parsed steps have "rest = r4"
        by (subst (asm) parseMembers.simps) (auto split: if_splits)
      with le show ?thesis by simp
    qed
  qed
qed

lemma parseElements_unguarded:
  "parseElements cs =
     (case parseValue cs of
        None \<Rightarrow> None
      | Some (v, rest) \<Rightarrow>
          (case skipWhiteSpace rest of
             [] \<Rightarrow> None
           | c # rest' \<Rightarrow>
               if c = CHR '','' then
                 map_option (\<lambda>(elements, after). (v # elements, after)) (parseElements rest')
               else if c = CHR '']'' then Some ([v], rest')
               else None))"
  by (subst parseElements.simps) (simp add: parse_shorter split: option.splits)

lemma parseMembers_unguarded:
  "parseMembers cs =
     (case skipWhiteSpace cs of
        [] \<Rightarrow> None
      | c # rest \<Rightarrow>
          if c = CHR 0x22 then
            (case scanString rest of
               None \<Rightarrow> None
             | Some (key, rest1) \<Rightarrow>
                 (case skipWhiteSpace rest1 of
                    [] \<Rightarrow> None
                  | c1 # rest2 \<Rightarrow>
                      if c1 = CHR '':'' then
                        (case parseValue rest2 of
                           None \<Rightarrow> None
                         | Some (v, rest3) \<Rightarrow>
                             (case skipWhiteSpace rest3 of
                                [] \<Rightarrow> None
                              | c3 # rest4 \<Rightarrow>
                                  if c3 = CHR '','' then
                                    map_option (\<lambda>(members, after). ((key, v) # members, after))
                                      (parseMembers rest4)
                                  else if c3 = CHR ''}'' then Some ([(key, v)], rest4)
                                  else None))
                      else None))
          else None)"
proof -
  have "length rest2 < length cs"
    if "skipWhiteSpace cs = c # rest" "scanString rest = Some (key, rest1)"
      "skipWhiteSpace rest1 = c1 # rest2" for c rest key rest1 c1 rest2
    using skipWhiteSpace_Cons [OF that(1)] scanString_shorter [OF that(2)]
      skipWhiteSpace_Cons [OF that(3)] by simp
  then show ?thesis
    by (subst parseMembers.simps) (simp add: parse_shorter split: option.splits list.splits)
qed

subsection \<open>Reading back what was saved\<close>

lemma hexValue_hexDigit: "d < 16 \<Longrightarrow> hexValue (hexDigit d) = Some d"
  by (simp add: hexValue_def hexDigit_def Let_def)

lemma scanString_quoteChar:
  "scanString (quoteChar c @ cs) =
     map_option (\<lambda>(units, rest). (of_char c # units, rest)) (scanString cs)"
proof (cases "c = CHR 0x08 \<or> c = CHR 0x09 \<or> c = CHR 0x0A \<or> c = CHR 0x0C \<or> c = CHR 0x0D \<or>
    c = CHR 0x22 \<or> c = CHR 0x5C")
  case True
  then show ?thesis
    by (auto simp: quoteChar_def escapeValue_def)
next
  case named: False
  show ?thesis
  proof (cases "(of_char c :: nat) < 32")
    case True
    then have "(of_char c :: nat) div 16 < 16" "(of_char c :: nat) mod 16 < 16"
      by simp_all
    then have hex: "hexValue (hexDigit (of_char c div 16)) = Some (of_char c div 16)"
      "hexValue (hexDigit (of_char c mod 16)) = Some (of_char c mod 16)"
      by (simp_all only: hexValue_hexDigit)
    have zero: "hexValue CHR ''0'' = Some 0"
      by (simp add: hexValue_def)
    have "quoteChar c = [CHR 0x5C, CHR ''u'', CHR ''0'', CHR ''0'',
        hexDigit (of_char c div 16), hexDigit (of_char c mod 16)]"
      using named True by (simp add: quoteChar_def)
    then show ?thesis
      by (simp add: hex zero)
  next
    case False
    with named show ?thesis
      by (simp add: quoteChar_def)
  qed
qed

lemma scanString_quoted:
  "scanString (concat (map quoteChar str) @ CHR 0x22 # rest) = Some (map of_char str, rest)"
  by (induction str) (simp_all add: scanString_quoteChar)

lemma isDigit_decimal: "(d::nat) < 10 \<Longrightarrow> isDigit (char_of (48 + d))"
  by (simp add: isDigit_def)

lemma natToString_digits: "c \<in> set (natToString n) \<Longrightarrow> isDigit c"
proof (induction n rule: natToString.induct)
  case (1 n)
  then show ?case
    by (subst (asm) (2) natToString.simps) (auto simp: isDigit_decimal split: if_splits)
qed

lemma natToString_nonempty: "natToString n \<noteq> []"
  by (subst natToString.simps) simp

lemma digitsToNat_Nil: "digitsToNat [] = 0"
  by (simp add: digitsToNat_def)

lemma digitsToNat_snoc: "digitsToNat (ds @ [c]) = 10 * digitsToNat ds + (of_char c - 48)"
  by (simp add: digitsToNat_def)

lemma digitsToNat_natToString: "digitsToNat (natToString n) = n"
proof (induction n rule: natToString.induct)
  case (1 n)
  show ?case
  proof (cases "n < 10")
    case True
    then show ?thesis
      by (subst natToString.simps) (simp add: digitsToNat_def)
  next
    case False
    with "1" show ?thesis
      by (subst natToString.simps) (simp add: digitsToNat_snoc)
  qed
qed

lemma natToString_no_leading_zero:
  "hd (natToString n) = CHR ''0'' \<Longrightarrow> tl (natToString n) = []"
proof (induction n rule: natToString.induct)
  case (1 n)
  show ?case
  proof (cases "n < 10")
    case True
    then show ?thesis
      by (subst natToString.simps) simp
  next
    case False
    then have eq: "natToString n = natToString (n div 10) @ [char_of (48 + n mod 10)]"
      by (subst natToString.simps) simp
    with "1.prems" have "hd (natToString (n div 10)) = CHR ''0''"
      by (simp add: natToString_nonempty)
    with "1.IH" False have "tl (natToString (n div 10)) = []"
      by simp
    moreover from this \<open>hd (natToString (n div 10)) = CHR ''0''\<close>
    have "natToString (n div 10) = ''0''"
      using natToString_nonempty [of "n div 10"] by (cases "natToString (n div 10)") auto
    then have "digitsToNat (natToString (n div 10)) = 0"
      by (simp add: digitsToNat_def)
    then have "n div 10 = 0"
      by (simp add: digitsToNat_natToString)
    with False show ?thesis
      by simp
  qed
qed

lemma scanNumber_natToString:
  "scanNumber (natToString n @ CHR '','' # rest) = Some (JNumber (int n) 0, CHR '','' # rest)"
proof -
  have comma: "\<not> isDigit CHR '',''"
    by (simp add: isDigit_def)
  have whole: "takeWhile isDigit (natToString n @ CHR '','' # rest) = natToString n"
    using comma by (simp add: takeWhile_append2 natToString_digits)
  have after: "dropWhile isDigit (natToString n @ CHR '','' # rest) = CHR '','' # rest"
    using comma by (simp add: dropWhile_append2 natToString_digits)
  have "isDigit (hd (natToString n))"
    by (rule natToString_digits [of _ n]) (simp add: natToString_nonempty)
  then have sign: "hd (natToString n) \<noteq> CHR ''-''"
    by (auto simp: isDigit_def)
  show ?thesis
    using natToString_no_leading_zero [of n] sign
    by (simp add: scanNumber_def whole after natToString_nonempty digitsToNat_natToString digitsToNat_Nil Let_def)
qed

lemma scanNumber_numberToString:
  "scanNumber (numberToString n @ CHR '','' # rest) = Some (JNumber n 0, CHR '','' # rest)"
proof (cases "n < 0")
  case False
  then show ?thesis
    using scanNumber_natToString [of "nat n" rest] by (simp add: numberToString_def)
next
  case True
  have comma: "\<not> isDigit CHR '',''"
    by (simp add: isDigit_def)
  have whole: "takeWhile isDigit (natToString (nat (- n)) @ CHR '','' # rest) = natToString (nat (- n))"
    using comma by (simp add: takeWhile_append2 natToString_digits)
  have after: "dropWhile isDigit (natToString (nat (- n)) @ CHR '','' # rest) = CHR '','' # rest"
    using comma by (simp add: dropWhile_append2 natToString_digits)
  show ?thesis
    using natToString_no_leading_zero [of "nat (- n)"] True
    by (simp add: scanNumber_def numberToString_def whole after natToString_nonempty
        digitsToNat_natToString digitsToNat_Nil Let_def)
qed

lemma skipWhiteSpace_other: "\<not> isJSONWhiteSpace c \<Longrightarrow> skipWhiteSpace (c # cs) = c # cs"
  by (simp add: skipWhiteSpace_def)

lemma not_white:
  "\<not> isJSONWhiteSpace CHR 0x22" "\<not> isJSONWhiteSpace CHR '':''" "\<not> isJSONWhiteSpace CHR '',''"
  "\<not> isJSONWhiteSpace CHR ''{''" "\<not> isJSONWhiteSpace CHR ''}''"
  "\<not> isJSONWhiteSpace CHR ''[''" "\<not> isJSONWhiteSpace CHR '']''"
  by (simp_all add: isJSONWhiteSpace_def)

lemma parseValue_string:
  "parseValue (quoteJSONString str @ rest) = Some (JString (map of_char str), rest)"
  by (subst parseValue.simps)
    (simp add: quoteJSONString_def skipWhiteSpace_other not_white scanString_quoted)

lemma parseValue_number:
  "parseValue (numberToString n @ CHR '','' # rest) = Some (JNumber n 0, CHR '','' # rest)"
proof -
  obtain c cs where shape: "numberToString n = c # cs"
    by (cases "numberToString n") (auto simp: numberToString_def natToString_nonempty split: if_splits)
  have "c = CHR ''-'' \<or> isDigit c"
  proof (cases "n < 0")
    case True
    with shape show ?thesis by (simp add: numberToString_def)
  next
    case False
    with shape have "c \<in> set (natToString (nat n))"
      by (simp add: numberToString_def)
    then show ?thesis
      by (simp add: natToString_digits)
  qed
  then have first: "\<not> isJSONWhiteSpace c" "c \<noteq> CHR ''{''" "c \<noteq> CHR ''[''" "c \<noteq> CHR 0x22"
    "c \<noteq> CHR ''t''" "c \<noteq> CHR ''f''" "c \<noteq> CHR ''n''"
    by (auto simp: isDigit_def isJSONWhiteSpace_def)
  have "parseValue (c # cs @ CHR '','' # rest) = scanNumber (c # cs @ CHR '','' # rest)"
    by (subst parseValue.simps) (simp add: skipWhiteSpace_other first)
  then show ?thesis
    using scanNumber_numberToString [of n rest] by (simp add: shape)
qed

lemma parseMembers_more:
  assumes "parseValue (vtext @ CHR '','' # others) = Some (v, CHR '','' # others)" and "vtext \<noteq> []"
  shows "parseMembers (quoteJSONString key @ CHR '':'' # vtext @ CHR '','' # others) =
    map_option (\<lambda>(members, after). ((map of_char key, v) # members, after)) (parseMembers others)"
  using assms
  by (subst parseMembers.simps)
    (simp add: quoteJSONString_def skipWhiteSpace_other not_white scanString_quoted)

lemma parseMembers_last:
  assumes "parseValue (vtext @ CHR ''}'' # rest) = Some (v, CHR ''}'' # rest)" and "vtext \<noteq> []"
  shows "parseMembers (quoteJSONString key @ CHR '':'' # vtext @ CHR ''}'' # rest) =
    Some ([(map of_char key, v)], rest)"
  using assms
  by (subst parseMembers.simps)
    (simp add: quoteJSONString_def skipWhiteSpace_other not_white scanString_quoted)

lemma quoteJSONString_nonempty: "quoteJSONString str \<noteq> []"
  by (simp add: quoteJSONString_def)

lemma numberToString_nonempty: "numberToString n \<noteq> []"
  by (simp add: numberToString_def natToString_nonempty)

lemma parseValue_object:
  assumes "parseMembers (CHR 0x22 # cs) = Some (members, rest)"
  shows "parseValue (CHR ''{'' # CHR 0x22 # cs) = Some (JObject members, rest)"
  by (subst parseValue.simps) (simp add: skipWhiteSpace_other not_white assms)

lemma parseValue_highScore:
  "parseValue (stringifyHighScore h @ rest) = Some (highScoreJSON h, rest)"
proof -
  let ?date = "quoteJSONString ''date'' @ CHR '':'' # quoteJSONString (date h) @ CHR ''}'' # rest"
  let ?score = "quoteJSONString ''score'' @ CHR '':'' # numberToString (HighScore.score h) @ CHR '','' # ?date"
  let ?name = "quoteJSONString ''name'' @ CHR '':'' # quoteJSONString (name h) @ CHR '','' # ?score"
  have d: "parseMembers ?date = Some ([(map of_char ''date'', JString (map of_char (date h)))], rest)"
    by (rule parseMembers_last) (simp_all only: parseValue_string quoteJSONString_nonempty not_False_eq_True)
  have s: "parseMembers ?score = Some ([(map of_char ''score'', JNumber (HighScore.score h) 0),
      (map of_char ''date'', JString (map of_char (date h)))], rest)"
    by (subst parseMembers_more)
      (simp_all only: parseValue_number numberToString_nonempty not_False_eq_True d, simp)
  have n: "parseMembers ?name = Some ([(map of_char ''name'', JString (map of_char (name h))),
      (map of_char ''score'', JNumber (HighScore.score h) 0),
      (map of_char ''date'', JString (map of_char (date h)))], rest)"
    by (subst parseMembers_more)
      (simp_all only: parseValue_string quoteJSONString_nonempty not_False_eq_True s, simp)
  obtain cs where q: "?name = CHR 0x22 # cs"
    by (simp add: quoteJSONString_def)
  have shape: "stringifyHighScore h @ rest = CHR ''{'' # ?name"
    by (simp add: stringifyHighScore_def)
  show ?thesis
    unfolding shape highScoreJSON_def
    using n unfolding q by (rule parseValue_object)
qed

lemma stringifyHighScore_shape: "\<exists>cs. stringifyHighScore h = CHR ''{'' # cs"
  by (simp add: stringifyHighScore_def)

lemma parseElements_last:
  "parseElements (stringifyHighScore h @ CHR '']'' # rest) = Some ([highScoreJSON h], rest)"
proof -
  obtain cs where "stringifyHighScore h = CHR ''{'' # cs"
    using stringifyHighScore_shape by blast
  then have "length (CHR '']'' # rest) < length (stringifyHighScore h @ CHR '']'' # rest)"
    by simp
  then show ?thesis
    by (subst parseElements.simps)
      (simp add: parseValue_highScore skipWhiteSpace_other not_white del: length_Cons length_append)
qed

lemma parseElements_more:
  "parseElements (stringifyHighScore h @ CHR '','' # cs) =
     map_option (\<lambda>(elements, after). (highScoreJSON h # elements, after)) (parseElements cs)"
proof -
  obtain cs' where "stringifyHighScore h = CHR ''{'' # cs'"
    using stringifyHighScore_shape by blast
  then have "length (CHR '','' # cs) < length (stringifyHighScore h @ CHR '','' # cs)"
    by simp
  then show ?thesis
    by (subst parseElements.simps)
      (simp add: parseValue_highScore skipWhiteSpace_other not_white del: length_Cons length_append)
qed

lemma parseElements_highScores:
  "parseElements (joinWith '','' (map stringifyHighScore (h # scores)) @ CHR '']'' # rest) =
     Some (map highScoreJSON (h # scores), rest)"
proof (induction scores arbitrary: h)
  case Nil
  show ?case
    by (simp add: parseElements_last)
next
  case (Cons h' scores)
  show ?case
    using Cons.IH [of h'] by (simp add: parseElements_more)
qed

lemma JSON_parse_stringify:
  "JSON_parse (JSON_stringify scores) = Some (JArray (map highScoreJSON scores))"
proof (cases scores)
  case Nil
  have "parseValue ''[]'' = Some (JArray [], [])"
    by (subst parseValue.simps) (simp add: skipWhiteSpace_other not_white)
  with Nil show ?thesis
    by (simp add: JSON_parse_def JSON_stringify_def skipWhiteSpace_def)
next
  case (Cons h others)
  obtain cs where first: "joinWith '','' (map stringifyHighScore (h # others)) @ '']'' = CHR ''{'' # cs"
    using stringifyHighScore_shape [of h] by (cases others) auto
  have "parseValue (CHR ''['' # CHR ''{'' # cs) =
      map_option (\<lambda>(elements, after). (JArray elements, after)) (parseElements (CHR ''{'' # cs))"
    by (subst parseValue.simps) (simp add: skipWhiteSpace_other not_white)
  moreover have "parseElements (CHR ''{'' # cs) = Some (map highScoreJSON (h # others), [])"
    using parseElements_highScores [of h others "[]"] first by simp
  ultimately show ?thesis
    using first by (simp add: JSON_parse_def JSON_stringify_def Cons skipWhiteSpace_def)
qed

lemma asString_of_char: "asString (map of_char str) = Some str"
  by (simp add: asString_def list_all_iff comp_def)

lemma asHighScore_highScoreJSON: "asHighScore (highScoreJSON h) = Some h"
  by (simp add: highScoreJSON_def asString_of_char asInteger_def)

lemma asHighScores_highScoreJSON: "asHighScores (JArray (map highScoreJSON scores)) = Some scores"
  by (simp add: asHighScore_highScoreJSON list_all_iff comp_def)

lemma loadHighScores_stringify: "loadHighScores (Some (JSON_stringify scores)) = Inr scores"
proof -
  have "JSON_stringify scores \<noteq> []"
    by (simp add: JSON_stringify_def)
  then show ?thesis
    by (simp add: loadHighScores_def JSON_parse_stringify asHighScores_highScoreJSON
        del: asHighScores.simps)
qed

text \<open>
  Claim C4, as amended.  When the key is absent, or holds the empty string, the leaderboard
  starts empty.  When it holds what \<^verbatim>\<open>saveHighScores\<close> wrote for a leaderboard, the
  leaderboard starts as that sequence of records.  When it holds a text that is not JSON,
  the \<^verbatim>\<open>SyntaxError\<close> of \<^verbatim>\<open>JSON.parse\<close> leaves the initialiser: no leaderboard is
  produced, empty or not, and the component does not mount.
\<close>

theorem loadHighScores_cases:
  "loadHighScores None = Inr [] \<and> loadHighScores (Some []) = Inr [] \<and>
   loadHighScores (Some (JSON_stringify scores)) = Inr scores \<and>
   mount (Some (JSON_stringify scores)) = Inr (initialState scores (Some (JSON_stringify scores))) \<and>
   mount None = Inr (initialState [] None) \<and>
   (stored \<noteq> [] \<and> JSON_parse stored = None \<longrightarrow>
      loadHighScores (Some stored) = Inl SyntaxError \<and> mount (Some stored) = Inl SyntaxError)"
  by (simp add: mount_def loadHighScores_stringify) (simp add: loadHighScores_def)

lemma JSON_parse_brace: "JSON_parse ''{'' = None"
  by (simp add: JSON_parse_def parseValue.simps skipWhiteSpace_def isJSONWhiteSpace_def)

theorem loadHighScores_cases_witness:
  "loadHighScores (Some ''{'') = Inl SyntaxError \<and> mount (Some ''{'') = Inl SyntaxError \<and>
   loadHighScores (Some (JSON_stringify [\<lparr>name = ''Al'', score = 30, date = ''1/2/2025''\<rparr>])) =
     Inr [\<lparr>name = ''Al'', score = 30, date = ''1/2/2025''\<rparr>]"
  using loadHighScores_cases [of "[\<lparr>name = ''Al'', score = 30, date = ''1/2/2025''\<rparr>]" "''{''"]
    JSON_parse_brace
  by simp

text \<open>
  Claim C4 as stated fails on a stored text that was cut short, and on any other text that
  is not JSON: loading throws instead of yielding the empty sequence.
\<close>

theorem loadHighScores_malformed_counterexample:
  \<open>JSON_stringify [\<lparr>name = ''Al'', score = 30, date = ''1/2/2025''\<rparr>] =
     ''[{"name":"Al","score":30,"date":"1/2/2025"}]'' \<and>
   loadHighScores (Some ''[{"name":"Al","score":30,"date":"1/2/2025"}'') = Inl SyntaxError \<and>
   mount (Some ''[{"name":"Al","score":30,"date":"1/2/2025"}'') = Inl SyntaxError \<and>
   loadHighScores (Some ''high scores'') = Inl SyntaxError\<close>
  by code_simp

subsection \<open>Saving\<close>

text \<open>
  Claim C8.  When the entered name is not empty after trimming, \<^verbatim>\<open>savePlayerHighScore\<close>
  leaves a leaderboard that is sorted by score, larger first, and has at most 5 records,
  and the item in storage is the serialisation of that whole leaderboard: loading it
  gives the leaderboard back.  The leaderboard is the first 5 records of the stable sort
  of the old records followed by the new one, whatever the scores of the old records are.
\<close>

theorem savePlayerHighScore_sorted_bounded_persisted:
  assumes "trim (playerName s) \<noteq> []"
  shows "sorted_wrt (\<lambda>a b. HighScore.score b \<le> HighScore.score a) (highScores (savePlayerHighScore today s)) \<and>
         length (highScores (savePlayerHighScore today s)) \<le> 5 \<and>
         storage (savePlayerHighScore today s) = Some (JSON_stringify (highScores (savePlayerHighScore today s))) \<and>
         loadHighScores (storage (savePlayerHighScore today s)) = Inr (highScores (savePlayerHighScore today s)) \<and>
         highScores (savePlayerHighScore today s) =
           take 5 (sort_key (\<lambda>h. - HighScore.score h)
             (highScores s @ [\<lparr>name = trim (playerName s), score = newHighScore s, date = today\<rparr>]))"
proof -
  let ?all = "highScores s @ [\<lparr>name = trim (playerName s), score = newHighScore s, date = today\<rparr>]"
  have "sorted (map (\<lambda>h. - HighScore.score h) (sort_key (\<lambda>h. - HighScore.score h) ?all))"
    by (rule sorted_sort_key)
  then have "sorted_wrt (\<lambda>a b. HighScore.score b \<le> HighScore.score a) (sort_key (\<lambda>h. - HighScore.score h) ?all)"
    by (simp add: sorted_map)
  then have "sorted_wrt (\<lambda>a b. HighScore.score b \<le> HighScore.score a)
      (take 5 (sort_key (\<lambda>h. - HighScore.score h) ?all))"
    by (rule sorted_wrt_take)
  with assms show ?thesis
    by (simp add: savePlayerHighScore_def saveHighScores_def MAX_HIGH_SCORES_def Let_def
        loadHighScores_stringify)
qed

theorem savePlayerHighScore_sorted_bounded_persisted_witness:
  "highScores (savePlayerHighScore ''3/4/2025''
     ((initialState
        [\<lparr>name = ''A'', score = 300, date = ''1/1/2025''\<rparr>, \<lparr>name = ''B'', score = 100, date = ''1/2/2025''\<rparr>,
         \<lparr>name = ''C'', score = 100, date = ''1/3/2025''\<rparr>, \<lparr>name = ''D'', score = 100, date = ''1/4/2025''\<rparr>,
         \<lparr>name = ''E'', score = 50, date = ''1/5/2025''\<rparr>] None)
        \<lparr>playerName := '' Zed '', newHighScore := 100, showNameDialog := True\<rparr>)) =
     [\<lparr>name = ''A'', score = 300, date = ''1/1/2025''\<rparr>, \<lparr>name = ''B'', score = 100, date = ''1/2/2025''\<rparr>,
      \<lparr>name = ''C'', score = 100, date = ''1/3/2025''\<rparr>, \<lparr>name = ''D'', score = 100, date = ''1/4/2025''\<rparr>,
      \<lparr>name = ''Zed'', score = 100, date = ''3/4/2025''\<rparr>] \<and>
   storage (savePlayerHighScore ''3/4/2025''
     ((initialState
        [\<lparr>name = ''A'', score = 300, date = ''1/1/2025''\<rparr>, \<lparr>name = ''B'', score = 100, date = ''1/2/2025''\<rparr>,
         \<lparr>name = ''C'', score = 100, date = ''1/3/2025''\<rparr>, \<lparr>name = ''D'', score = 100, date = ''1/4/2025''\<rparr>,
         \<lparr>name = ''E'', score = 50, date = ''1/5/2025''\<rparr>] None)
        \<lparr>playerName := '' Zed '', newHighScore := 100, showNameDialog := True\<rparr>)) =
     Some (JSON_stringify
       [\<lparr>name = ''A'', score = 300, date = ''1/1/2025''\<rparr>, \<lparr>name = ''B'', score = 100, date = ''1/2/2025''\<rparr>,
        \<lparr>name = ''C'', score = 100, date = ''1/3/2025''\<rparr>, \<lparr>name = ''D'', score = 100, date = ''1/4/2025''\<rparr>,
        \<lparr>name = ''Zed'', score = 100, date = ''3/4/2025''\<rparr>]) \<and>
   loadHighScores (storage (savePlayerHighScore ''3/4/2025''
     ((initialState
        [\<lparr>name = ''A'', score = 300, date = ''1/1/2025''\<rparr>, \<lparr>name = ''B'', score = 100, date = ''1/2/2025''\<rparr>,
         \<lparr>name = ''C'', score = 100, date = ''1/3/2025''\<rparr>, \<lparr>name = ''D'', score = 100, date = ''1/4/2025''\<rparr>,
         \<lparr>name = ''E'', score = 50, date = ''1/5/2025''\<rparr>] None)
        \<lparr>playerName := '' Zed '', newHighScore := 100, showNameDialog := True\<rparr>))) =
     Inr [\<lparr>name = ''A'', score = 300, date = ''1/1/2025''\<rparr>, \<lparr>name = ''B'', score = 100, date = ''1/2/2025''\<rparr>,
          \<lparr>name = ''C'', score = 100, date = ''1/3/2025''\<rparr>, \<lparr>name = ''D'', score = 100, date = ''1/4/2025''\<rparr>,
          \<lparr>name = ''Zed'', score = 100, date = ''3/4/2025''\<rparr>]"
proof -
  let ?s = "(initialState
        [\<lparr>name = ''A'', score = 300, date = ''1/1/2025''\<rparr>, \<lparr>name = ''B'', score = 100, date = ''1/2/2025''\<rparr>,
         \<lparr>name = ''C'', score = 100, date = ''1/3/2025''\<rparr>, \<lparr>name = ''D'', score = 100, date = ''1/4/2025''\<rparr>,
         \<lparr>name = ''E'', score = 50, date = ''1/5/2025''\<rparr>] None)
        \<lparr>playerName := '' Zed '', newHighScore := 100, showNameDialog := True\<rparr>"
  let ?s' = "savePlayerHighScore ''3/4/2025'' ?s"
  have t: "trim '' Zed '' = ''Zed''"
    by (simp add: trim_def isWhiteSpace_def)
  then have "trim (playerName ?s) \<noteq> []"
    by simp
  note saved = savePlayerHighScore_sorted_bounded_persisted [OF this, of "''3/4/2025''"]
  have "highScores ?s' = take 5 (sort_key (\<lambda>h. - HighScore.score h)
      (highScores ?s @ [\<lparr>name = trim (playerName ?s), score = newHighScore ?s, date = ''3/4/2025''\<rparr>]))"
    using saved by blast
  then have board: "highScores ?s' =
      [\<lparr>name = ''A'', score = 300, date = ''1/1/2025''\<rparr>, \<lparr>name = ''B'', score = 100, date = ''1/2/2025''\<rparr>,
       \<lparr>name = ''C'', score = 100, date = ''1/3/2025''\<rparr>, \<lparr>name = ''D'', score = 100, date = ''1/4/2025''\<rparr>,
       \<lparr>name = ''Zed'', score = 100, date = ''3/4/2025''\<rparr>]"
    by (simp add: t initialState_def)
  have "storage ?s' = Some (JSON_stringify (highScores ?s'))"
    and "loadHighScores (storage ?s') = Inr (highScores ?s')"
    using saved by blast+
  then show ?thesis
    unfolding board by (intro conjI refl)
qed

end
